theory Spec2Isabelle
  imports Complex_Main "HOL-Library.Multiset"
begin

section \<open>JavaScript values\<close>

text \<open>
  The handler of \<^verbatim>\<open>src/data/MultiStairHandler.js\<close> is dynamically typed. The
  values it inspects are numbers, strings, booleans, \<^verbatim>\<open>undefined\<close>, \<^verbatim>\<open>null\<close>,
  arrays (responses, the condition list) and flat objects (the conditions, whose
  fields hold primitive values, as rows of a conditions table do). Numbers are
  idealised as reals; \<^verbatim>\<open>NaN\<close> is not a value of the model.
\<close>

datatype prim = Undefined | Null | Bool bool | Num real | Str string

datatype jsval = P prim | Arr "jsval list" | Obj "(string \<times> prim) list"

text \<open>
  What the code throws: a string, the message of \<^verbatim>\<open>addResponse\<close> (which quotes the
  offending response), an engine error, or the object
  \<^verbatim>\<open>{origin, context, error}\<close> that wraps what a \<^verbatim>\<open>catch\<close> block caught.
\<close>

datatype js_error =
    Thrown string
  | MustBe01 jsval
  | TypeError
  | RangeError
  | Wrapped string string js_error

fun js_typeof :: "jsval \<Rightarrow> string" where
  "js_typeof (P Undefined) = ''undefined''"
| "js_typeof (P Null) = ''object''"
| "js_typeof (P (Bool b)) = ''boolean''"
| "js_typeof (P (Num r)) = ''number''"
| "js_typeof (P (Str s)) = ''string''"
| "js_typeof (Arr xs) = ''object''"
| "js_typeof (Obj fs) = ''object''"

text \<open>
  The operator \<^verbatim>\<open>key in value\<close>, for the keys the handler asks for (\<^verbatim>\<open>startVal\<close>,
  \<^verbatim>\<open>label\<close>, \<^verbatim>\<open>startValSd\<close>): none of them is an index or \<^verbatim>\<open>length\<close>, so an array
  has none of them; on \<^verbatim>\<open>null\<close> and on any other primitive the operator throws a
  TypeError.
\<close>

fun js_in :: "string \<Rightarrow> jsval \<Rightarrow> js_error + bool" where
  "js_in k (Obj fs) = Inr (k \<in> set (map fst fs))"
| "js_in k (Arr xs) = Inr False"
| "js_in k (P p) = Inl TypeError"

definition get_field :: "string \<Rightarrow> (string \<times> 'v) list \<Rightarrow> 'v option" where
  "get_field k fs = map_of fs k"

fun set_field :: "string \<Rightarrow> 'v \<Rightarrow> (string \<times> 'v) list \<Rightarrow> (string \<times> 'v) list" where
  "set_field k v [] = [(k, v)]"
| "set_field k v ((k', v') # fs) =
     (if k' = k then (k, v) # fs else (k', v') # set_field k v fs)"

text \<open>
  \<^verbatim>\<open>Array(n).fill(x)\<close>: for a number \<^verbatim>\<open>n\<close> that is a valid array length, \<^verbatim>\<open>n\<close> copies
  of \<^verbatim>\<open>x\<close>; for any other number a RangeError; for a value that is not a number,
  \<^verbatim>\<open>Array(n)\<close> is the one-element array \<^verbatim>\<open>[n]\<close>, which \<^verbatim>\<open>fill\<close> overwrites.
\<close>

definition Array_fill :: "prim \<Rightarrow> 'a \<Rightarrow> js_error + 'a list" where
  "Array_fill n x =
     (case n of
        Num r \<Rightarrow>
          if 0 \<le> r \<and> r \<le> 4294967295 \<and> r = of_int \<lfloor>r\<rfloor>
          then Inr (replicate (nat \<lfloor>r\<rfloor>) x)
          else Inl RangeError
      | _ \<Rightarrow> Inr [x])"

text \<open>
  The trial budget a value of \<^verbatim>\<open>nTrials\<close> stands for: the number of labels
  \<^verbatim>\<open>Array(nTrials).fill(label)\<close> holds when it does not throw.
\<close>

definition trial_budget :: "prim \<Rightarrow> nat" where
  "trial_budget n = (case n of Num r \<Rightarrow> nat \<lfloor>r\<rfloor> | _ \<Rightarrow> 1)"

section \<open>Collaborators\<close>

datatype Method = SEQUENTIAL | RANDOM | FULL_RANDOM

datatype StaircaseType = SIMPLE | QUEST

text \<open>
  Modelled from the spec: the collaborators whose code is not in the files at hand
  (\<^verbatim>\<open>QuestHandler\<close>, \<^verbatim>\<open>util.shuffle\<close>, \<^verbatim>\<open>seedrandom\<close>) are parameters. A generator
  has a state of type \<^typ>\<open>'g\<close>; \<open>permutation g n\<close> is the order in which a shuffle of
  \<open>n\<close> elements driven by the generator in state \<open>g\<close> lists the old positions,
  with the state the generator is left in. An adaptive procedure has a state of type
  \<^typ>\<open>'q\<close>, created from the argument object, advanced by its own \<^verbatim>\<open>addResponse\<close>
  (response, value, doAddData, doGiveToQuest), and queried for its finished flag, its
  recommended value and its user attributes with their current values.
\<close>

record ('g, 'q) deps =
  seedrandom :: "prim \<Rightarrow> 'g"
  permutation :: "'g \<Rightarrow> nat \<Rightarrow> nat list \<times> 'g"
  quest_new :: "(string \<times> prim) list \<Rightarrow> 'q"
  quest_addResponse :: "'q \<Rightarrow> jsval \<Rightarrow> jsval \<Rightarrow> bool \<Rightarrow> bool \<Rightarrow> 'q"
  quest_finished :: "'q \<Rightarrow> bool"
  getQuestValue :: "'q \<Rightarrow> real"
  userAttributes :: "'q \<Rightarrow> (string \<times> jsval) list"

text \<open>
  Modelled from the spec: \<^verbatim>\<open>util.shuffle(array, generator)\<close> returns the elements in
  the order the generator dictates and advances the generator; positions outside the
  array are skipped.
\<close>

definition shuffle :: "('g \<Rightarrow> nat \<Rightarrow> nat list \<times> 'g) \<Rightarrow> 'a list \<Rightarrow> 'g \<Rightarrow> 'a list \<times> 'g" where
  "shuffle perm xs g =
     (case perm g (length xs) of
        (p, g') \<Rightarrow> (map (\<lambda>i. xs ! i) (filter (\<lambda>i. i < length xs) p), g'))"

text \<open>
  Modelled from the spec: \<^verbatim>\<open>util.repeatEveryElement(array, n)\<close> expands each element
  into \<open>n\<close> adjacent repeats.
\<close>

definition repeatEveryElement :: "'a list \<Rightarrow> nat \<Rightarrow> 'a list" where
  "repeatEveryElement xs n = concat (map (replicate n) xs)"

section \<open>State\<close>

text \<open>
  Modelled from the spec: a staircase object as \<^verbatim>\<open>new QuestHandler(args)\<close> leaves it
  (the class is not in the files at hand): its \<^verbatim>\<open>_name\<close> is \<^verbatim>\<open>args.name\<close>, the label of
  its condition; it has \<^verbatim>\<open>_duplicatedConditionCardinal\<close> as a property of its own when
  the condition carries one; the rest is the state of the procedure.
\<close>

record 'q staircase =
  s_name :: prim
  s_duplicatedConditionCardinal :: "prim option"
  s_quest :: 'q

record snapshot =
  snap_finished :: bool
  snap_fields :: "(string \<times> jsval) list"
  trialAttributes :: "string list"

text \<open>
  The handler. Staircases are objects shared by \<^verbatim>\<open>_staircases\<close>, \<^verbatim>\<open>_currentPass\<close> and
  \<^verbatim>\<open>_currentStaircase\<close>; the model keeps them in \<open>staircases\<close> and refers to them by
  position, \<open>None\<close> standing for \<^verbatim>\<open>undefined\<close> (or \<^verbatim>\<open>null\<close>). A ledger slot is \<open>None\<close>
  while it is \<^verbatim>\<open>undefined\<close>. The duplication cardinal is a number, \<open>None\<close> standing for
  \<^verbatim>\<open>NaN\<close>.
\<close>

record ('g, 'q) handler =
  name :: string
  varName :: string
  autoLog :: prim
  multiMethod :: Method
  stairType :: StaircaseType
  conditions :: jsval
  nTrials :: nat
  duplicates :: nat
  duplicatedTrialCardinal :: "nat option"
  randomNumberGenerator :: 'g
  staircases :: "'q staircase list"
  trialKey :: "prim list"
  currentPass :: "nat option list"
  currentStaircase :: "nat option"
  finished :: bool
  trialList :: "(string \<times> jsval) list option list"
  snapshots :: "snapshot list"

text \<open>
  The world outside the handler: the state of \<^verbatim>\<open>Math.random\<close> (which a shuffle
  without a generator draws from), the generator \<^verbatim>\<open>seedrandom()\<close> would return
  without a seed, and the data recorded by \<^verbatim>\<open>experiment.addData\<close>.
\<close>

record 'g world =
  math_random :: 'g
  auto_seeded :: 'g
  exp_data :: "(string \<times> jsval) list"

section \<open>Validation of the conditions\<close>

fun validate_each :: "StaircaseType \<Rightarrow> jsval list \<Rightarrow> js_error option" where
  "validate_each st [] = None"
| "validate_each st (c # cs) =
     (if js_typeof c \<noteq> ''object''
      then Some (Thrown ''one of the conditions is not an object'')
      else case js_in ''startVal'' c of
        Inl e \<Rightarrow> Some e
      | Inr False \<Rightarrow> Some (Thrown ''each condition should include a startVal field'')
      | Inr True \<Rightarrow>
         (case js_in ''label'' c of
            Inl e \<Rightarrow> Some e
          | Inr False \<Rightarrow> Some (Thrown ''each condition should include a label field'')
          | Inr True \<Rightarrow>
             (if st = QUEST
              then (case js_in ''startValSd'' c of
                      Inl e \<Rightarrow> Some e
                    | Inr False \<Rightarrow>
                        Some (Thrown ''QUEST conditions must include a startValSd field'')
                    | Inr True \<Rightarrow> validate_each st cs)
              else validate_each st cs)))"

definition validateConditions_body :: "StaircaseType \<Rightarrow> jsval \<Rightarrow> js_error option" where
  "validateConditions_body st conds =
     (case conds of
        Arr cs \<Rightarrow>
          if length cs = 0
          then Some (Thrown ''conditions should be a non empty array of objects'')
          else if st = SIMPLE
          then Some (Thrown ([CHR 0x27] @ ''simple'' @ [CHR 0x27]
                       @ '' staircases are currently not supported''))
          else validate_each st cs
      | _ \<Rightarrow> Some (Thrown ''conditions should be a non empty array of objects''))"

definition validateConditions :: "StaircaseType \<Rightarrow> jsval \<Rightarrow> js_error option" where
  "validateConditions st conds =
     (case validateConditions_body st conds of
        None \<Rightarrow> None
      | Some e \<Rightarrow>
          Some (Wrapped ''MultiStairHandler._validateConditions''
                  ''when validating the conditions'' e))"

section \<open>Setting up the staircases\<close>

definition field_value :: "string \<Rightarrow> (string \<times> prim) list \<Rightarrow> prim" where
  "field_value k fs = (case get_field k fs of None \<Rightarrow> Undefined | Some v \<Rightarrow> v)"

text \<open>
  The argument object of one condition: a copy of the condition with \<^verbatim>\<open>varName\<close>,
  \<^verbatim>\<open>name\<close> (the label) and \<^verbatim>\<open>autoLog\<close> set, and \<^verbatim>\<open>nTrials\<close> defaulting to the
  handler's. (The reference to the PsychoJS instance is left out.)
\<close>

definition quest_args :: "string \<Rightarrow> prim \<Rightarrow> nat \<Rightarrow> (string \<times> prim) list \<Rightarrow> (string \<times> prim) list" where
  "quest_args vn al n condition =
     (let args = set_field ''varName'' (Str vn) condition;
          args = set_field ''name'' (field_value ''label'' condition) args;
          args = set_field ''autoLog'' al args
      in if field_value ''nTrials'' condition = Undefined
         then set_field ''nTrials'' (Num (real n)) args
         else args)"

text \<open>
  Whether a condition's label goes into the trial key: it does unless the condition
  carries a \<^verbatim>\<open>_duplicatedConditionCardinal\<close> other than 1.
\<close>

definition in_trialKey :: "(string \<times> prim) list \<Rightarrow> bool" where
  "in_trialKey args =
     (get_field ''_duplicatedConditionCardinal'' args = None
      \<or> field_value ''_duplicatedConditionCardinal'' args = Num 1)"

text \<open>
  The loop of \<^verbatim>\<open>_prepareStaircases\<close> over the conditions, for the QUEST kind (the
  only kind validation lets through, and it lets only objects through: the branch
  for other values is never taken after a successful validation).
\<close>

fun prepare_loop ::
  "('g, 'q) deps \<Rightarrow> string \<Rightarrow> prim \<Rightarrow> nat \<Rightarrow> jsval list \<Rightarrow> 'q staircase list \<Rightarrow> prim list
     \<Rightarrow> js_error + ('q staircase list \<times> prim list)" where
  "prepare_loop d vn al n [] ss keys = Inr (ss, keys)"
| "prepare_loop d vn al n (Obj condition # cs) ss keys =
     (let args = quest_args vn al n condition;
          pushed =
            (if in_trialKey args
             then (case Array_fill (field_value ''nTrials'' args) (field_value ''name'' args) of
                     Inl e \<Rightarrow> Inl e
                   | Inr ks \<Rightarrow> Inr (keys @ ks))
             else Inr keys)
      in case pushed of
           Inl e \<Rightarrow> Inl e
         | Inr keys' \<Rightarrow>
             prepare_loop d vn al n cs
               (ss @ [\<lparr> s_name = field_value ''name'' args,
                        s_duplicatedConditionCardinal =
                          get_field ''_duplicatedConditionCardinal'' args,
                        s_quest = quest_new d args \<rparr>])
               keys')"
| "prepare_loop d vn al n (c # cs) ss keys = Inl TypeError"

definition prepareStaircases ::
  "('g, 'q) deps \<Rightarrow> ('g, 'q) handler \<Rightarrow> 'g world
     \<Rightarrow> js_error + (('g, 'q) handler \<times> 'g world)" where
  "prepareStaircases d h w =
     (case (case validateConditions (stairType h) (conditions h) of
              Some e \<Rightarrow> Inl e
            | None \<Rightarrow>
               (case (case conditions h of
                        Arr cs \<Rightarrow> prepare_loop d (varName h) (autoLog h) (nTrials h) cs [] []
                      | _ \<Rightarrow> Inl TypeError) of
                  Inl e \<Rightarrow> Inl e
                | Inr (ss, keys) \<Rightarrow>
                   (case shuffle (permutation d) keys (math_random w) of
                      (shuffled, g') \<Rightarrow>
                        Inr (h\<lparr> staircases := ss,
                                trialKey := repeatEveryElement shuffled (duplicates h),
                                currentPass := [],
                                currentStaircase := None \<rparr>,
                             w\<lparr> math_random := g' \<rparr>)))) of
        Inl e \<Rightarrow>
          Inl (Wrapped ''MultiStairHandler._prepareStaircases''
                 ''when preparing the staircases'' e)
      | Inr r \<Rightarrow> Inr r)"

section \<open>Moving onto the next trial\<close>

text \<open>The staircases that are not finished, by position.\<close>

definition unfinished :: "('g, 'q) deps \<Rightarrow> 'q staircase list \<Rightarrow> nat list" where
  "unfinished d ss = filter (\<lambda>i. \<not> quest_finished d (s_quest (ss ! i))) [0..<length ss]"

text \<open>
  \<^verbatim>\<open>(cardinal % duplicates) + 1\<close>: the remainder by zero is \<^verbatim>\<open>NaN\<close>, and so is every
  number computed from \<^verbatim>\<open>NaN\<close>.
\<close>

definition next_cardinal :: "nat option \<Rightarrow> nat \<Rightarrow> nat option" where
  "next_cardinal c n =
     (case c of
        None \<Rightarrow> None
      | Some k \<Rightarrow> if n = 0 then None else Some (k mod n + 1))"

text \<open>
  The staircase picked for a key: the first one of that name, and of the current
  cardinal when every staircase carries one; \<open>None\<close> when there is none.
\<close>

definition select_handler :: "'q staircase list \<Rightarrow> prim \<Rightarrow> nat option \<Rightarrow> nat option" where
  "select_handler ss key c =
     (if list_all (\<lambda>s. s_duplicatedConditionCardinal s \<noteq> None) ss
      then find (\<lambda>i. s_name (ss ! i) = key
                     \<and> (case c of
                          None \<Rightarrow> False
                        | Some k \<Rightarrow> s_duplicatedConditionCardinal (ss ! i) = Some (Num (real k))))
             [0..<length ss]
      else find (\<lambda>i. s_name (ss ! i) = key) [0..<length ss])"

text \<open>\<^verbatim>\<open>array.shift()\<close>: the first element (\<^verbatim>\<open>undefined\<close> for an empty array) and the rest.\<close>

definition shift_key :: "prim list \<Rightarrow> prim \<times> prim list" where
  "shift_key ks = (case ks of [] \<Rightarrow> (Undefined, []) | k # ks' \<Rightarrow> (k, ks'))"

definition new_pass :: "('g, 'q) deps \<Rightarrow> ('g, 'q) handler \<Rightarrow> ('g, 'q) handler" where
  "new_pass d h =
     (let pass = map Some (unfinished d (staircases h)) in
      case multiMethod h of
        SEQUENTIAL \<Rightarrow> h\<lparr> currentPass := pass \<rparr>
      | RANDOM \<Rightarrow>
          (case shuffle (permutation d) pass (randomNumberGenerator h) of
             (shuffled, g') \<Rightarrow> h\<lparr> currentPass := shuffled, randomNumberGenerator := g' \<rparr>)
      | FULL_RANDOM \<Rightarrow>
          if length pass > 0
          then (let c = next_cardinal (duplicatedTrialCardinal h) (duplicates h) in
                case shift_key (trialKey h) of
                  (nextConditionName, keys) \<Rightarrow>
                    h\<lparr> duplicatedTrialCardinal := c,
                       trialKey := keys,
                       currentPass := [select_handler (staircases h) nextConditionName c] \<rparr>)
          else h\<lparr> currentPass := pass \<rparr>)"

text \<open>A ledger slot reads as \<^verbatim>\<open>undefined\<close> when it is empty or beyond the ledger's end.\<close>

definition slot_undefined :: "'a option list \<Rightarrow> nat \<Rightarrow> bool" where
  "slot_undefined ledger t = (if t < length ledger then ledger ! t = None else True)"

text \<open>
  The loop run at termination: the first \<open>t\<close> below \<^verbatim>\<open>snapshots.length - 1\<close> whose next
  ledger slot is undefined gets its snapshot flagged, and the loop stops.
\<close>

function mark_finished ::
  "nat \<Rightarrow> 'a option list \<Rightarrow> snapshot list \<Rightarrow> snapshot list" where
  "mark_finished t ledger sn =
     (if int t < int (length sn) - 1
      then (if slot_undefined ledger (t + 1)
            then sn[t := (sn ! t)\<lparr> snap_finished := True \<rparr>]
            else mark_finished (t + 1) ledger sn)
      else sn)"
  by pat_completeness auto
termination
  by (relation "measure (\<lambda>(t, ledger, sn). length sn - t)") auto

declare mark_finished.simps [simp del]

text \<open>The fields a trial record gets from the selected staircase.\<close>

definition copy_attribute ::
  "string \<Rightarrow> prim \<Rightarrow> string \<times> jsval \<Rightarrow> (string \<times> jsval) list \<Rightarrow> (string \<times> jsval) list" where
  "copy_attribute nm sname av e =
     (if fst av = ''name'' then set_field (nm @ ''.label'') (P sname) e
      else if fst av \<noteq> ''trialList'' \<and> fst av \<noteq> ''extraInfo''
      then set_field (nm @ ''.'' @ fst av) (snd av) e
      else e)"

definition copy_attributes ::
  "string \<Rightarrow> prim \<Rightarrow> (string \<times> jsval) list \<Rightarrow> (string \<times> jsval) list \<Rightarrow> (string \<times> jsval) list" where
  "copy_attributes nm sname attrs e = fold (copy_attribute nm sname) attrs e"

definition trial_record ::
  "string \<Rightarrow> string \<Rightarrow> prim \<Rightarrow> (string \<times> jsval) list \<Rightarrow> real \<Rightarrow> (string \<times> jsval) list" where
  "trial_record nm vn sname attrs v =
     copy_attributes nm sname attrs
       (set_field (nm @ ''.intensity'') (P (Num v))
          (set_field (nm @ ''.'' @ vn) (P (Num v)) []))"

text \<open>The same fields mirrored into a snapshot, each field name pushed as it is set.\<close>

definition snap_set :: "string \<Rightarrow> jsval \<Rightarrow> snapshot \<Rightarrow> snapshot" where
  "snap_set k v sn =
     sn\<lparr> snap_fields := set_field k v (snap_fields sn),
         trialAttributes := trialAttributes sn @ [k] \<rparr>"

definition snap_attribute ::
  "string \<Rightarrow> prim \<Rightarrow> string \<times> jsval \<Rightarrow> snapshot \<Rightarrow> snapshot" where
  "snap_attribute nm sname av sn =
     (if fst av = ''name'' then snap_set (nm @ ''.label'') (P sname) sn
      else if fst av \<noteq> ''trialList'' \<and> fst av \<noteq> ''extraInfo''
      then snap_set (nm @ ''.'' @ fst av) (snd av) sn
      else sn)"

definition snap_attributes ::
  "string \<Rightarrow> prim \<Rightarrow> (string \<times> jsval) list \<Rightarrow> snapshot \<Rightarrow> snapshot" where
  "snap_attributes nm sname attrs sn = fold (snap_attribute nm sname) attrs sn"

definition snap_record ::
  "string \<Rightarrow> string \<Rightarrow> prim \<Rightarrow> (string \<times> jsval) list \<Rightarrow> real \<Rightarrow> snapshot \<Rightarrow> snapshot" where
  "snap_record nm vn sname attrs v sn =
     snap_attributes nm sname attrs
       (snap_set (nm @ ''.intensity'') (P (Num v))
          (snap_set (nm @ ''.'' @ vn) (P (Num v)) sn))"

text \<open>The position of the first undefined slot of the ledger, if there is one.\<close>

fun first_undefined :: "'a option list \<Rightarrow> nat option" where
  "first_undefined [] = None"
| "first_undefined (None # xs) = Some 0"
| "first_undefined (Some x # xs) = map_option Suc (first_undefined xs)"

definition write_trial ::
  "('g, 'q) deps \<Rightarrow> 'q staircase \<Rightarrow> ('g, 'q) handler \<Rightarrow> ('g, 'q) handler" where
  "write_trial d s h =
     (let v = getQuestValue d (s_quest s);
          attrs = userAttributes d (s_quest s)
      in case first_undefined (trialList h) of
           None \<Rightarrow> h
         | Some t \<Rightarrow>
             h\<lparr> trialList :=
                  (trialList h)[t := Some (trial_record (name h) (varName h) (s_name s) attrs v)],
                snapshots :=
                  (if t < length (snapshots h)
                   then (snapshots h)
                          [t := snap_record (name h) (varName h) (s_name s) attrs v
                                  (snapshots h ! t)]
                   else snapshots h) \<rparr>)"

definition terminate :: "('g, 'q) handler \<Rightarrow> ('g, 'q) handler" where
  "terminate h =
     h\<lparr> finished := True,
        snapshots := mark_finished 0 (trialList h) (snapshots h) \<rparr>"

text \<open>
  \<^verbatim>\<open>_nextTrial\<close>: a new pass when the current one is empty, then the head of the
  pass becomes the current staircase; without one the handler terminates, with one
  its value is written into the ledger. A position beyond the staircases does not
  occur in a pass (see \<open>wf_handler\<close> below) and reads as \<^verbatim>\<open>undefined\<close>.
\<close>

definition nextTrial :: "('g, 'q) deps \<Rightarrow> ('g, 'q) handler \<Rightarrow> ('g, 'q) handler" where
  "nextTrial d h =
     (let h1 = (if length (currentPass h) = 0 then new_pass d h else h);
          cur = (case currentPass h1 of [] \<Rightarrow> None | c # rest \<Rightarrow> c);
          h2 = h1\<lparr> currentStaircase := cur, currentPass := tl (currentPass h1) \<rparr>
      in case cur of
           None \<Rightarrow> terminate h2
         | Some i \<Rightarrow>
             if i < length (staircases h2)
             then write_trial d (staircases h2 ! i) h2
             else terminate (h2\<lparr> currentStaircase := None \<rparr>))"

section \<open>Adding a response\<close>

text \<open>\<^verbatim>\<open>[0,1].includes(r)\<close>.\<close>

definition is_01 :: "jsval \<Rightarrow> bool" where
  "is_01 r = (r = P (Num 0) \<or> r = P (Num 1))"

text \<open>The condition under which \<^verbatim>\<open>addResponse\<close> throws at its first statement.\<close>

definition response_rejected :: "jsval \<Rightarrow> bool" where
  "response_rejected response =
     (response \<noteq> P (Num 0) \<and> response \<noteq> P (Num 1)
      \<and> \<not> (case response of Arr rs \<Rightarrow> list_all is_01 rs | _ \<Rightarrow> False))"

definition addData :: "string \<Rightarrow> jsval \<Rightarrow> 'g world \<Rightarrow> 'g world" where
  "addData k v w = w\<lparr> exp_data := exp_data w @ [(k, v)] \<rparr>"

definition record_response :: "string \<Rightarrow> jsval \<Rightarrow> 'g world \<Rightarrow> 'g world" where
  "record_response nm response w =
     (case response of
        Arr rs \<Rightarrow> fold (addData (nm @ ''.response'')) rs w
      | _ \<Rightarrow> addData (nm @ ''.response'') response w)"

text \<open>
  The current staircase takes the response (with \<^verbatim>\<open>doAddData = false\<close>); the object is
  the one \<^verbatim>\<open>_staircases\<close> holds, so the update shows there.
\<close>

definition give_response ::
  "('g, 'q) deps \<Rightarrow> nat \<Rightarrow> jsval \<Rightarrow> jsval \<Rightarrow> bool \<Rightarrow> ('g, 'q) handler \<Rightarrow> ('g, 'q) handler" where
  "give_response d i response val doGiveToQuest h =
     h\<lparr> staircases :=
          (staircases h)
            [i := (staircases h ! i)
                    \<lparr> s_quest :=
                        quest_addResponse d (s_quest (staircases h ! i))
                          response val False doGiveToQuest \<rparr>] \<rparr>"

text \<open>
  \<^verbatim>\<open>addResponse\<close> returns what it threw, if it threw, with the handler and the world
  as the call left them. Calling a method of an \<^verbatim>\<open>undefined\<close> current staircase is a
  TypeError.
\<close>

definition addResponse ::
  "('g, 'q) deps \<Rightarrow> jsval \<Rightarrow> jsval \<Rightarrow> bool \<Rightarrow> ('g, 'q) handler \<times> 'g world
     \<Rightarrow> js_error option \<times> (('g, 'q) handler \<times> 'g world)" where
  "addResponse d response val doGiveToQuest hw =
     (case hw of (h, w) \<Rightarrow>
        if response_rejected response
        then (Some (Wrapped ''MultiStairHandler.addResponse'' ''when adding a trial response''
                      (MustBe01 response)),
              (h, w))
        else (let w' = record_response (name h) response w in
              if \<not> finished h
              then (case currentStaircase h of
                      None \<Rightarrow> (Some TypeError, (h, w'))
                    | Some i \<Rightarrow>
                        if i < length (staircases h)
                        then (None,
                              (nextTrial d (give_response d i response val doGiveToQuest h), w'))
                        else (Some TypeError, (h, w')))
              else (None, (h, w'))))"

section \<open>Construction\<close>

record options =
  o_varName :: string
  o_stairType :: "StaircaseType option"
  o_conditions :: jsval
  o_method :: "Method option"
  o_nTrials :: "nat option"
  o_randomSeed :: prim
  o_name :: string
  o_autoLog :: prim
  o_duplicates :: "nat option"

text \<open>
  The constructor. Modelled from the spec: the base class \<^verbatim>\<open>TrialHandler\<close> (not in the
  files at hand) keeps the ledger it is given, \<^verbatim>\<open>Array(nTrials)\<close>, that is \<^verbatim>\<open>nTrials\<close>
  undefined slots, and starts unfinished; the snapshots it starts with are an argument.
  An option left \<^verbatim>\<open>undefined\<close> takes its default.
\<close>

definition initial_handler ::
  "('g, 'q) deps \<Rightarrow> options \<Rightarrow> snapshot list \<Rightarrow> 'g world \<Rightarrow> ('g, 'q) handler" where
  "initial_handler d opts snaps w =
     (let n = (case o_nTrials opts of None \<Rightarrow> 50 | Some k \<Rightarrow> k) in
      \<lparr> name = o_name opts,
        varName = o_varName opts,
        autoLog = o_autoLog opts,
        multiMethod = (case o_method opts of None \<Rightarrow> RANDOM | Some m \<Rightarrow> m),
        stairType = (case o_stairType opts of None \<Rightarrow> SIMPLE | Some t \<Rightarrow> t),
        conditions =
          (if o_conditions opts = P Undefined then Arr [P Undefined] else o_conditions opts),
        nTrials = n,
        duplicates = (case o_duplicates opts of None \<Rightarrow> 1 | Some k \<Rightarrow> k),
        duplicatedTrialCardinal = Some 0,
        randomNumberGenerator =
          (if o_randomSeed opts \<noteq> Undefined then seedrandom d (o_randomSeed opts)
           else auto_seeded w),
        staircases = [],
        trialKey = [],
        currentPass = [],
        currentStaircase = None,
        finished = False,
        trialList = replicate n None,
        snapshots = snaps \<rparr>)"

definition constructor ::
  "('g, 'q) deps \<Rightarrow> options \<Rightarrow> snapshot list \<Rightarrow> 'g world
     \<Rightarrow> js_error + (('g, 'q) handler \<times> 'g world)" where
  "constructor d opts snaps w =
     (case prepareStaircases d (initial_handler d opts snaps w) w of
        Inl e \<Rightarrow> Inl e
      | Inr (h, w') \<Rightarrow> Inr (nextTrial d h, w'))"

text \<open>A run: the responses of a session given one after the other, stopping at a throw.\<close>

fun run ::
  "('g, 'q) deps \<Rightarrow> (jsval \<times> jsval \<times> bool) list \<Rightarrow> ('g, 'q) handler \<times> 'g world
     \<Rightarrow> js_error option \<times> (('g, 'q) handler \<times> 'g world)" where
  "run d [] hw = (None, hw)"
| "run d ((response, val, give) # rs) hw =
     (case addResponse d response val give hw of
        (Some e, hw') \<Rightarrow> (Some e, hw')
      | (None, hw') \<Rightarrow> run d rs hw')"

section \<open>Well-formed handlers\<close>

text \<open>
  What holds of every handler the constructor returns and \<^verbatim>\<open>addResponse\<close> keeps: the
  current staircase is one of the staircases unless the handler is finished, and so
  is every defined entry of the current pass.
\<close>

definition wf_handler :: "('g, 'q) handler \<Rightarrow> bool" where
  "wf_handler h =
     ((case currentStaircase h of
         None \<Rightarrow> finished h
       | Some i \<Rightarrow> i < length (staircases h))
      \<and> list_all (\<lambda>c. case c of None \<Rightarrow> True | Some i \<Rightarrow> i < length (staircases h))
           (currentPass h))"

section \<open>A sample of the collaborators\<close>

text \<open>
  Modelled from the spec: an instance of the collaborators for running the model on
  concrete inputs. The generator's state is a number; seeding takes the seed's integer
  part, and a shuffle rotates the sequence by the state and steps the state. A
  procedure counts the responses it was given and is finished when the count reaches
  the trial budget of its \<^verbatim>\<open>nTrials\<close>; it recommends its starting value and exposes
  its name and starting value.
\<close>

record sample_quest =
  sq_count :: nat
  sq_budget :: nat
  sq_startVal :: real

definition prim_nat :: "prim \<Rightarrow> nat" where
  "prim_nat p = (case p of Num r \<Rightarrow> nat \<lfloor>r\<rfloor> | _ \<Rightarrow> 0)"

definition prim_real :: "prim \<Rightarrow> real" where
  "prim_real p = (case p of Num r \<Rightarrow> r | _ \<Rightarrow> 0)"

definition sample_deps :: "(nat, sample_quest) deps" where
  "sample_deps =
     \<lparr> seedrandom = prim_nat,
       permutation = (\<lambda>g n. (rotate g [0..<n], g + 1)),
       quest_new = (\<lambda>args. \<lparr> sq_count = 0,
                             sq_budget = trial_budget (field_value ''nTrials'' args),
                             sq_startVal = prim_real (field_value ''startVal'' args) \<rparr>),
       quest_addResponse = (\<lambda>q response val doAddData doGiveToQuest.
                              q\<lparr> sq_count := sq_count q + 1 \<rparr>),
       quest_finished = (\<lambda>q. sq_budget q \<le> sq_count q),
       getQuestValue = sq_startVal,
       userAttributes = (\<lambda>q. [(''name'', P Undefined), (''startVal'', P (Num (sq_startVal q)))]) \<rparr>"

section \<open>The statements, in the words of their descriptions\<close>

text \<open>
  A valid response, in the words of the documentation: 0, 1, or an array of 0s and 1s.
\<close>

definition valid_response :: "jsval \<Rightarrow> bool" where
  "valid_response r =
     (r = P (Num 0) \<or> r = P (Num 1)
      \<or> (case r of Arr rs \<Rightarrow> list_all (\<lambda>x. x = P (Num 0) \<or> x = P (Num 1)) rs | _ \<Rightarrow> False))"

text \<open>The scalar values of a response, in the order they are recorded.\<close>

definition response_values :: "jsval \<Rightarrow> jsval list" where
  "response_values r = (case r of Arr rs \<Rightarrow> rs | _ \<Rightarrow> [r])"

text \<open>What \<^verbatim>\<open>addResponse\<close> throws for a response it rejects.\<close>

definition response_error :: "jsval \<Rightarrow> js_error" where
  "response_error r =
     Wrapped ''MultiStairHandler.addResponse'' ''when adding a trial response'' (MustBe01 r)"

text \<open>A condition that is a plain object, and one that has no field of a given name.\<close>

definition is_object :: "jsval \<Rightarrow> bool" where
  "is_object c = (case c of Obj fs \<Rightarrow> True | _ \<Rightarrow> False)"

definition lacks :: "string \<Rightarrow> jsval \<Rightarrow> bool" where
  "lacks k c = (case c of Obj fs \<Rightarrow> k \<notin> set (map fst fs) | _ \<Rightarrow> True)"

text \<open>
  The configurations the documentation rules out: the condition list is not a list, is
  empty or has an element that is not an object; a condition lacks its starting value or
  its label; the kind is the unsupported simple one; the kind is QUEST and a condition
  lacks its starting uncertainty.
\<close>

definition bad_configuration :: "StaircaseType \<Rightarrow> jsval \<Rightarrow> bool" where
  "bad_configuration st conds =
     (case conds of
        Arr cs \<Rightarrow>
          cs = []
          \<or> list_ex (\<lambda>c. \<not> is_object c) cs
          \<or> list_ex (\<lambda>c. lacks ''startVal'' c \<or> lacks ''label'' c) cs
          \<or> st = SIMPLE
          \<or> (st = QUEST \<and> list_ex (lacks ''startValSd'') cs)
      | _ \<Rightarrow> True)"

text \<open>What the loop of \<^verbatim>\<open>_validateConditions\<close> asks of one condition.\<close>

definition good_condition :: "StaircaseType \<Rightarrow> jsval \<Rightarrow> bool" where
  "good_condition st c =
     (is_object c \<and> \<not> lacks ''startVal'' c \<and> \<not> lacks ''label'' c
      \<and> (st = QUEST \<longrightarrow> \<not> lacks ''startValSd'' c))"

text \<open>
  The snapshot flagged at termination, in the words of the rule: the first index \<open>t\<close>,
  scanning from 0 and staying below \<^verbatim>\<open>snapshots.length - 1\<close>, whose successor ledger
  slot \<open>t + 1\<close> is undefined; \<open>None\<close> when there is no such index.
\<close>

definition backfill_index :: "'a option list \<Rightarrow> snapshot list \<Rightarrow> nat option" where
  "backfill_index ledger sn = find (\<lambda>t. slot_undefined ledger (t + 1)) [0..<length sn - 1]"

text \<open>Setting the finished flag of the snapshot at one index.\<close>

definition flag_snapshot :: "nat \<Rightarrow> snapshot list \<Rightarrow> snapshot list" where
  "flag_snapshot t sn = sn[t := (sn ! t)\<lparr> snap_finished := True \<rparr>]"

text \<open>
  The trial key sequence in the words of its description. A condition has a label and a
  trial budget (its own \<^verbatim>\<open>nTrials\<close>, or the handler's); \<open>key_base\<close> replicates each
  label by its budget and concatenates, over the conditions it is given;
  \<open>key_sequence\<close> shuffles that once and expands every element into adjacent repeats.
\<close>

definition condition_label :: "(string \<times> prim) list \<Rightarrow> prim" where
  "condition_label c = field_value ''label'' c"

text \<open>The trial budget of a condition, \<open>n\<close> being the handler's \<^verbatim>\<open>nTrials\<close>.\<close>

definition condition_budget :: "nat \<Rightarrow> (string \<times> prim) list \<Rightarrow> nat" where
  "condition_budget n c =
     trial_budget (if field_value ''nTrials'' c = Undefined then Num (real n)
                   else field_value ''nTrials'' c)"

text \<open>The conditions of a list that are objects, as their field lists.\<close>

definition objects :: "jsval list \<Rightarrow> (string \<times> prim) list list" where
  "objects cs = concat (map (\<lambda>c. case c of Obj fs \<Rightarrow> [fs] | _ \<Rightarrow> []) cs)"

text \<open>Each label replicated by its budget, concatenated.\<close>

definition key_base :: "nat \<Rightarrow> (string \<times> prim) list list \<Rightarrow> prim list" where
  "key_base n cs = concat (map (\<lambda>c. replicate (condition_budget n c) (condition_label c)) cs)"

text \<open>The base shuffled once, every element then expanded into adjacent repeats.\<close>

definition key_sequence ::
  "('g \<Rightarrow> nat \<Rightarrow> nat list \<times> 'g) \<Rightarrow> 'g \<Rightarrow> nat \<Rightarrow> nat \<Rightarrow> (string \<times> prim) list list \<Rightarrow> prim list" where
  "key_sequence perm g n dup cs = repeatEveryElement (fst (shuffle perm (key_base n cs) g)) dup"

text \<open>
  The conditions whose labels the code puts into the key: those that carry no
  \<^verbatim>\<open>_duplicatedConditionCardinal\<close>, or carry the cardinal 1.
\<close>

definition first_duplicate :: "(string \<times> prim) list \<Rightarrow> bool" where
  "first_duplicate c =
     (get_field ''_duplicatedConditionCardinal'' c = None
      \<or> get_field ''_duplicatedConditionCardinal'' c = Some (Num 1))"

text \<open>A generator's permutations are permutations: of the positions \<open>0..<n\<close>, each once.\<close>

definition permutes :: "('g \<Rightarrow> nat \<Rightarrow> nat list \<times> 'g) \<Rightarrow> bool" where
  "permutes perm = (\<forall>g n. mset (fst (perm g n)) = mset [0..<n])"


text \<open>The label of the staircase a handler has selected, if it has one.\<close>

definition current_label :: "('g, 'q) handler \<Rightarrow> prim option" where
  "current_label h = map_option (\<lambda>i. s_name (staircases h ! i)) (currentStaircase h)"

text \<open>
  The duplicate selected for a label under a cardinal, in the words of the rule: a
  staircase of that label which, when every staircase carries a duplication tag, carries
  the cardinal as its tag; the one selected is the first such staircase.
\<close>

definition is_duplicate :: "'q staircase list \<Rightarrow> prim \<Rightarrow> nat \<Rightarrow> nat \<Rightarrow> bool" where
  "is_duplicate ss label c i =
     (i < length ss \<and> s_name (ss ! i) = label
      \<and> (list_all (\<lambda>s. s_duplicatedConditionCardinal s \<noteq> None) ss \<longrightarrow>
           s_duplicatedConditionCardinal (ss ! i) = Some (Num (real c))))"


section \<open>What a session keeps\<close>

text \<open>The populated slots of a ledger form an initial segment of it.\<close>

definition in_order :: "'a option list \<Rightarrow> bool" where
  "in_order ledger = list_all (\<lambda>x. x = None) (dropWhile (\<lambda>x. x \<noteq> None) ledger)"

text \<open>A later ledger keeps every slot an earlier one had populated.\<close>

definition keeps :: "'a option list \<Rightarrow> 'a option list \<Rightarrow> bool" where
  "keeps a b = (length b = length a \<and> list_all2 (\<lambda>x y. x \<noteq> None \<longrightarrow> y = x) a b)"

text \<open>An entry of a pass is \<^verbatim>\<open>undefined\<close> or one of \<open>n\<close> staircases.\<close>

definition pass_ok :: "nat \<Rightarrow> nat option \<Rightarrow> bool" where
  "pass_ok n c = (case c of None \<Rightarrow> True | Some i \<Rightarrow> i < n)"

text \<open>The pass a step works on: the current one, or a new one when that is empty.\<close>

definition pass_of :: "('g, 'q) deps \<Rightarrow> ('g, 'q) handler \<Rightarrow> ('g, 'q) handler" where
  "pass_of d h = (if length (currentPass h) = 0 then new_pass d h else h)"





text \<open>The trials left over all staircases of a handler.\<close>

definition trials_left :: "('q \<Rightarrow> nat) \<Rightarrow> ('g, 'q) handler \<Rightarrow> nat" where
  "trials_left left h = sum_list (map (\<lambda>s. left (s_quest s)) (staircases h))"

text \<open>The staircase object \<^verbatim>\<open>_prepareStaircases\<close> creates for one condition.\<close>

definition staircase_of ::
  "('g, 'q) deps \<Rightarrow> string \<Rightarrow> prim \<Rightarrow> nat \<Rightarrow> (string \<times> prim) list \<Rightarrow> 'q staircase" where
  "staircase_of d vn al n c =
     \<lparr> s_name = field_value ''name'' (quest_args vn al n c),
       s_duplicatedConditionCardinal =
         get_field ''_duplicatedConditionCardinal'' (quest_args vn al n c),
       s_quest = quest_new d (quest_args vn al n c) \<rparr>"





section \<open>Sample inputs\<close>

definition sample_A :: jsval where
  "sample_A = Obj [(''label'', Str ''A''), (''startVal'', Num 5), (''startValSd'', Num 1)]"

definition sample_B :: jsval where
  "sample_B = Obj [(''label'', Str ''B''), (''startVal'', Num 3), (''startValSd'', Num 1)]"

definition sample_options :: options where
  "sample_options =
     \<lparr> o_varName = ''v'', o_stairType = Some QUEST, o_conditions = Arr [sample_A, sample_B],
       o_method = Some SEQUENTIAL, o_nTrials = Some 2, o_randomSeed = Num 7, o_name = ''ms'',
       o_autoLog = Undefined, o_duplicates = None \<rparr>"

definition sample_world :: "nat world" where
  "sample_world = \<lparr> math_random = 1, auto_seeded = 0, exp_data = [] \<rparr>"

text \<open>The sample handler as constructed, and after the four responses that finish it.\<close>

definition sample_handler :: "(nat, sample_quest) handler \<times> nat world" where
  "sample_handler = projr (constructor sample_deps sample_options [] sample_world)"

definition sample_finished :: "(nat, sample_quest) handler \<times> nat world" where
  "sample_finished =
     snd (run sample_deps (replicate 4 (P (Num 1), P Undefined, True)) sample_handler)"


text \<open>The sample options with a second condition that has no label.\<close>

definition sample_no_label :: options where
  "sample_no_label =
     sample_options \<lparr> o_conditions := Arr [sample_A, Obj [(''startVal'', Num 3)]] \<rparr>"

text \<open>Two conditions of one trial each, and a handler of two trials.\<close>

definition sample_two_conditions :: options where
  "sample_two_conditions =
     sample_options
       \<lparr> o_conditions :=
           Arr [Obj [(''label'', Str ''A''), (''startVal'', Num 5), (''startValSd'', Num 1),
                     (''nTrials'', Num 1)],
                Obj [(''label'', Str ''B''), (''startVal'', Num 3), (''startValSd'', Num 1),
                     (''nTrials'', Num 1)]] \<rparr>"

text \<open>A snapshot nothing has been written to.\<close>

definition blank_snapshot :: snapshot where
  "blank_snapshot = \<lparr> snap_finished = False, snap_fields = [], trialAttributes = [] \<rparr>"

text \<open>
  The handler of these two conditions, built over the given snapshots, after the first
  response has been recorded and the second has been given to the current staircase:
  the state in which the last trial-selection step starts.
\<close>

definition sample_before_last_step :: "snapshot list \<Rightarrow> (nat, sample_quest) handler" where
  "sample_before_last_step snaps =
     give_response sample_deps 1 (P (Num 1)) (P Undefined) True
       (fst (snd (run sample_deps [(P (Num 1), P Undefined, True)]
          (projr (constructor sample_deps sample_two_conditions snaps sample_world)))))"

text \<open>
  One label in three duplicates, each a condition of its own carrying its cardinal, under
  the fully randomized method with a duplication factor of three and one trial each.
\<close>

definition sample_triplicate :: options where
  "sample_triplicate =
     \<lparr> o_varName = ''v'', o_stairType = Some QUEST,
       o_conditions =
         Arr [Obj [(''label'', Str ''A''), (''startVal'', Num 5), (''startValSd'', Num 1),
                   (''_duplicatedConditionCardinal'', Num 1)],
              Obj [(''label'', Str ''A''), (''startVal'', Num 5), (''startValSd'', Num 1),
                   (''_duplicatedConditionCardinal'', Num 2)],
              Obj [(''label'', Str ''A''), (''startVal'', Num 5), (''startValSd'', Num 1),
                   (''_duplicatedConditionCardinal'', Num 3)]],
       o_method = Some FULL_RANDOM, o_nTrials = Some 1, o_randomSeed = Num 7, o_name = ''ms'',
       o_autoLog = Undefined, o_duplicates = Some 3 \<rparr>"

text \<open>The sample handler of three duplicates after \<^verbatim>\<open>_prepareStaircases\<close>.\<close>

definition sample_triplicate_prepared :: "(nat, sample_quest) handler \<times> nat world" where
  "sample_triplicate_prepared =
     projr (prepareStaircases sample_deps
              (initial_handler sample_deps sample_triplicate [] sample_world) sample_world)"

text \<open>The sample options under the fully randomized method, seeded as before.\<close>

definition sample_full_random :: options where
  "sample_full_random = sample_options \<lparr> o_method := Some FULL_RANDOM \<rparr>"








section \<open>The trial ledger\<close>

lemma first_undefined_Some:
  "first_undefined xs = Some t \<Longrightarrow> t < length xs \<and> xs ! t = None \<and> (\<forall>u<t. xs ! u \<noteq> None)"
proof (induction xs arbitrary: t rule: first_undefined.induct)
  case 1
  then show ?case by simp
next
  case (2 xs)
  then show ?case by simp
next
  case (3 x xs)
  then obtain k where k: "first_undefined xs = Some k" "t = Suc k" by auto
  with 3 have "k < length xs \<and> xs ! k = None \<and> (\<forall>u<k. xs ! u \<noteq> None)" by blast
  with k show ?case by (auto simp: nth_Cons split: nat.splits)
qed

lemma first_undefined_None:
  "first_undefined xs = None \<Longrightarrow> \<forall>u<length xs. xs ! u \<noteq> None"
  by (induction xs rule: first_undefined.induct) (auto simp: nth_Cons split: nat.splits)

lemma trialList_new_pass [simp]: "trialList (new_pass d h) = trialList h"
  by (simp add: new_pass_def Let_def split: Method.splits prod.splits)

lemma snapshots_new_pass [simp]: "snapshots (new_pass d h) = snapshots h"
  by (simp add: new_pass_def Let_def split: Method.splits prod.splits)

lemma staircases_new_pass [simp]: "staircases (new_pass d h) = staircases h"
  by (simp add: new_pass_def Let_def split: Method.splits prod.splits)

lemma finished_new_pass [simp]: "finished (new_pass d h) = finished h"
  by (simp add: new_pass_def Let_def split: Method.splits prod.splits)

lemma trialList_terminate [simp]: "trialList (terminate h) = trialList h"
  by (simp add: terminate_def)

lemma trialList_write_trial:
  "trialList (write_trial d s h) =
     (case first_undefined (trialList h) of
        None \<Rightarrow> trialList h
      | Some t \<Rightarrow> (trialList h)[t := Some (trial_record (name h) (varName h) (s_name s)
                       (userAttributes d (s_quest s)) (getQuestValue d (s_quest s)))])"
  by (simp add: write_trial_def Let_def split: option.splits)

text \<open>The ledger after a step: unchanged, or the first undefined slot filled.\<close>

lemma trialList_nextTrial:
  "trialList (nextTrial d h) = trialList h
   \<or> (\<exists>t e. first_undefined (trialList h) = Some t
            \<and> trialList (nextTrial d h) = (trialList h)[t := Some e])"
  by (auto simp: nextTrial_def Let_def trialList_write_trial split: option.splits list.splits)

lemma in_order_iff:
  "in_order xs = (\<forall>t<length xs. xs ! t \<noteq> None \<longrightarrow> (\<forall>u<t. xs ! u \<noteq> None))"
proof (induction xs)
  case Nil
  then show ?case by (simp add: in_order_def)
next
  case (Cons x xs)
  show ?case
  proof (cases x)
    case None
    have "in_order (x # xs) = (\<forall>y\<in>set xs. y = None)"
      using None by (simp add: in_order_def list_all_iff)
    also have "\<dots> = (\<forall>t<length (x # xs). (x # xs) ! t \<noteq> None \<longrightarrow> (\<forall>u<t. (x # xs) ! u \<noteq> None))"
    proof
      assume a: "\<forall>y\<in>set xs. y = None"
      show "\<forall>t<length (x # xs). (x # xs) ! t \<noteq> None \<longrightarrow> (\<forall>u<t. (x # xs) ! u \<noteq> None)"
      proof (intro allI impI)
        fix t u assume "t < length (x # xs)" "(x # xs) ! t \<noteq> None" "u < t"
        with a None show "(x # xs) ! u \<noteq> None"
          by (cases t) auto
      qed
    next
      assume a: "\<forall>t<length (x # xs). (x # xs) ! t \<noteq> None \<longrightarrow> (\<forall>u<t. (x # xs) ! u \<noteq> None)"
      show "\<forall>y\<in>set xs. y = None"
      proof
        fix y assume "y \<in> set xs"
        then obtain k where k: "k < length xs" "xs ! k = y" by (auto simp: in_set_conv_nth)
        show "y = None"
        proof (rule ccontr)
          assume "y \<noteq> None"
          with a[rule_format, of "Suc k" 0] k None show False by simp
        qed
      qed
    qed
    finally show ?thesis .
  next
    case (Some v)
    have "in_order (x # xs) = in_order xs"
      using Some by (simp add: in_order_def)
    also have "\<dots> = (\<forall>t<length xs. xs ! t \<noteq> None \<longrightarrow> (\<forall>u<t. xs ! u \<noteq> None))"
      by (rule Cons.IH)
    also have "\<dots> = (\<forall>t<length (x # xs). (x # xs) ! t \<noteq> None \<longrightarrow> (\<forall>u<t. (x # xs) ! u \<noteq> None))"
    proof
      assume a: "\<forall>t<length xs. xs ! t \<noteq> None \<longrightarrow> (\<forall>u<t. xs ! u \<noteq> None)"
      show "\<forall>t<length (x # xs). (x # xs) ! t \<noteq> None \<longrightarrow> (\<forall>u<t. (x # xs) ! u \<noteq> None)"
      proof (intro allI impI)
        fix t u assume h: "t < length (x # xs)" "(x # xs) ! t \<noteq> None" "u < t"
        then obtain t' where t': "t = Suc t'" by (cases t) auto
        show "(x # xs) ! u \<noteq> None"
        proof (cases u)
          case 0 with Some show ?thesis by simp
        next
          case (Suc u')
          with h t' a[rule_format, of t' u'] show ?thesis by simp
        qed
      qed
    next
      assume a: "\<forall>t<length (x # xs). (x # xs) ! t \<noteq> None \<longrightarrow> (\<forall>u<t. (x # xs) ! u \<noteq> None)"
      show "\<forall>t<length xs. xs ! t \<noteq> None \<longrightarrow> (\<forall>u<t. xs ! u \<noteq> None)"
      proof (intro allI impI)
        fix t u assume h: "t < length xs" "xs ! t \<noteq> None" "u < t"
        with a[rule_format, of "Suc t" "Suc u"] show "xs ! u \<noteq> None" by simp
      qed
    qed
    finally show ?thesis .
  qed
qed

lemma keeps_iff:
  "keeps a b = (length b = length a \<and> (\<forall>t<length a. a ! t \<noteq> None \<longrightarrow> b ! t = a ! t))"
  by (auto simp: keeps_def list_all2_conv_all_nth)

lemma keeps_refl: "keeps a a"
  by (simp add: keeps_iff)

lemma keeps_trans: "keeps a b \<Longrightarrow> keeps b c \<Longrightarrow> keeps a c"
  by (simp add: keeps_iff)

lemma fill_first_keeps:
  "first_undefined a = Some t \<Longrightarrow> keeps a (a[t := Some e])"
proof -
  assume a: "first_undefined a = Some t"
  then have t: "a ! t = None" by (auto dest: first_undefined_Some)
  show ?thesis
    unfolding keeps_iff
  proof (intro conjI allI impI)
    fix s assume "s < length a" "a ! s \<noteq> None"
    with t have "s \<noteq> t" by auto
    then show "a[t := Some e] ! s = a ! s" by simp
  qed simp
qed

lemma fill_first_in_order:
  assumes "first_undefined a = Some t" "in_order a"
  shows "in_order (a[t := Some e])"
proof -
  from assms(1) have t: "t < length a" "a ! t = None" "\<forall>u<t. a ! u \<noteq> None"
    by (auto dest: first_undefined_Some)
  show ?thesis
    unfolding in_order_iff
  proof (intro allI impI)
    fix s u assume h: "s < length (a[t := Some e])" "a[t := Some e] ! s \<noteq> None" "u < s"
    show "a[t := Some e] ! u \<noteq> None"
    proof (cases "s = t")
      case True
      with h t show ?thesis by (simp add: nth_list_update)
    next
      case False
      with h have "a ! s \<noteq> None" by (simp add: nth_list_update)
      with assms(2) h have "a ! u \<noteq> None" by (simp add: in_order_iff)
      with h t show ?thesis by (auto simp add: nth_list_update)
    qed
  qed
qed

lemma nextTrial_keeps: "keeps (trialList h) (trialList (nextTrial d h))"
  using trialList_nextTrial[of d h] by (auto simp: keeps_refl fill_first_keeps)

lemma nextTrial_in_order: "in_order (trialList h) \<Longrightarrow> in_order (trialList (nextTrial d h))"
  using trialList_nextTrial[of d h] by (auto simp: fill_first_in_order)

lemma trialList_give_response [simp]: "trialList (give_response d i r v g h) = trialList h"
  by (simp add: give_response_def)

lemma addResponse_keeps:
  "keeps (trialList h) (trialList (fst (snd (addResponse d r v g (h, w)))))"
  by (simp add: addResponse_def Let_def keeps_refl split: option.splits)
     (metis nextTrial_keeps trialList_give_response)

lemma addResponse_in_order:
  "in_order (trialList h) \<Longrightarrow> in_order (trialList (fst (snd (addResponse d r v g (h, w)))))"
  by (simp add: addResponse_def Let_def split: option.splits)
     (metis nextTrial_in_order trialList_give_response)

lemma run_keeps:
  "keeps (trialList (fst hw)) (trialList (fst (snd (run d rs hw))))"
proof (induction rs arbitrary: hw)
  case Nil
  then show ?case by (simp add: keeps_refl)
next
  case (Cons x rs)
  obtain r v g where x: "x = (r, v, g)" by (cases x) auto
  obtain h w where hw: "hw = (h, w)" by (cases hw) auto
  obtain e hw' where a: "addResponse d r v g (h, w) = (e, hw')" by (cases "addResponse d r v g (h, w)") auto
  have k: "keeps (trialList h) (trialList (fst hw'))"
    using addResponse_keeps[of h d r v g w] a by simp
  show ?case
  proof (cases e)
    case None
    with a x hw have "run d (x # rs) hw = run d rs hw'" by simp
    with Cons.IH[of hw'] k hw show ?thesis by (auto intro: keeps_trans)
  next
    case (Some err)
    with a x hw have "run d (x # rs) hw = (Some err, hw')" by simp
    with k hw show ?thesis by simp
  qed
qed

lemma run_in_order:
  "in_order (trialList (fst hw)) \<Longrightarrow> in_order (trialList (fst (snd (run d rs hw))))"
proof (induction rs arbitrary: hw)
  case Nil
  then show ?case by simp
next
  case (Cons x rs)
  obtain r v g where x: "x = (r, v, g)" by (cases x) auto
  obtain h w where hw: "hw = (h, w)" by (cases hw) auto
  obtain e hw' where a: "addResponse d r v g (h, w) = (e, hw')" by (cases "addResponse d r v g (h, w)") auto
  have k: "in_order (trialList (fst hw'))"
    using addResponse_in_order[of h d r v g w] a Cons.prems hw by simp
  show ?case
  proof (cases e)
    case None
    with a x hw have "run d (x # rs) hw = run d rs hw'" by simp
    with Cons.IH[of hw'] k show ?thesis by simp
  next
    case (Some err)
    with a x hw have "run d (x # rs) hw = (Some err, hw')" by simp
    with k show ?thesis by simp
  qed
qed

lemma in_order_replicate: "in_order (replicate n None)"
  by (simp add: in_order_def list_all_iff)

lemma trialList_prepareStaircases:
  "prepareStaircases d h w = Inr (h', w') \<Longrightarrow> trialList h' = trialList h"
  by (auto simp: prepareStaircases_def split: option.splits sum.splits prod.splits jsval.splits)

lemma constructor_in_order:
  "constructor d opts snaps w = Inr (h, w') \<Longrightarrow> in_order (trialList h)"
  by (auto simp: constructor_def initial_handler_def Let_def in_order_replicate
      split: sum.splits dest!: trialList_prepareStaircases intro!: nextTrial_in_order)

section \<open>Well-formed handlers through a session\<close>

lemma wf_handler_iff:
  "wf_handler h =
     ((case currentStaircase h of None \<Rightarrow> finished h | Some i \<Rightarrow> i < length (staircases h))
      \<and> (\<forall>c\<in>set (currentPass h). pass_ok (length (staircases h)) c))"
  by (simp add: wf_handler_def list_all_iff pass_ok_def)

lemma response_rejected_iff: "response_rejected r = (\<not> valid_response r)"
  by (auto simp: response_rejected_def valid_response_def is_01_def list_all_iff split: jsval.splits)

lemma fold_addData:
  "fold (addData k) rs w = w\<lparr> exp_data := exp_data w @ map (Pair k) rs \<rparr>"
  by (induction rs arbitrary: w) (simp_all add: addData_def)

lemma record_response_eq:
  "record_response nm r w
     = w\<lparr> exp_data := exp_data w @ map (Pair (nm @ ''.response'')) (response_values r) \<rparr>"
  by (cases r) (simp_all add: record_response_def response_values_def fold_addData addData_def)





lemma staircases_terminate [simp]: "staircases (terminate h) = staircases h"
  by (simp add: terminate_def)

lemma staircases_write_trial [simp]: "staircases (write_trial d s h) = staircases h"
  by (simp add: write_trial_def Let_def split: option.splits)

lemma currentPass_terminate [simp]: "currentPass (terminate h) = currentPass h"
  by (simp add: terminate_def)

lemma currentPass_write_trial [simp]: "currentPass (write_trial d s h) = currentPass h"
  by (simp add: write_trial_def Let_def split: option.splits)

lemma currentStaircase_terminate [simp]: "currentStaircase (terminate h) = currentStaircase h"
  by (simp add: terminate_def)

lemma currentStaircase_write_trial [simp]: "currentStaircase (write_trial d s h) = currentStaircase h"
  by (simp add: write_trial_def Let_def split: option.splits)

lemma finished_terminate [simp]: "finished (terminate h)"
  by (simp add: terminate_def)

lemma finished_write_trial [simp]: "finished (write_trial d s h) = finished h"
  by (simp add: write_trial_def Let_def split: option.splits)

lemma staircases_nextTrial [simp]: "staircases (nextTrial d h) = staircases h"
  by (simp add: nextTrial_def Let_def split: option.splits list.splits)


lemma staircases_pass_of [simp]: "staircases (pass_of d h) = staircases h"
  by (simp add: pass_of_def)

lemma nextTrial_pass_of:
  "nextTrial d h =
     (let h1 = pass_of d h;
          cur = (case currentPass h1 of [] \<Rightarrow> None | c # rest \<Rightarrow> c);
          h2 = h1\<lparr> currentStaircase := cur, currentPass := tl (currentPass h1) \<rparr>
      in case cur of
           None \<Rightarrow> terminate h2
         | Some i \<Rightarrow>
             if i < length (staircases h2)
             then write_trial d (staircases h2 ! i) h2
             else terminate (h2\<lparr> currentStaircase := None \<rparr>))"
  by (simp add: nextTrial_def pass_of_def)


lemma give_response_fields [simp]:
  "length (staircases (give_response d i r v g h)) = length (staircases h)"
  "currentPass (give_response d i r v g h) = currentPass h"
  "finished (give_response d i r v g h) = finished h"
  "currentStaircase (give_response d i r v g h) = currentStaircase h"
  by (simp_all add: give_response_def)





section \<open>Responses\<close>

text \<open>
  Claim C5. Once the handler is finished, \<^verbatim>\<open>addResponse\<close> with a valid response does
  not throw, leaves the whole handler (ledger, staircases and all else) as it is, and
  only appends the response's scalar values to the recorded data.
\<close>

theorem addResponse_when_finished:
  assumes "finished h" and "valid_response r"
  shows "addResponse d r v g (h, w)
       = (None, (h, w\<lparr> exp_data := exp_data w
                         @ map (Pair (name h @ ''.response'')) (response_values r) \<rparr>))"
  using assms by (simp add: addResponse_def response_rejected_iff record_response_eq)

text \<open>
  The sample handler, finished by four responses, is given an array of two values: only
  the two values are recorded.
\<close>

theorem addResponse_when_finished_witness:
  "finished (fst sample_finished) \<and> valid_response (Arr [P (Num 1), P (Num 0)])
   \<and> addResponse sample_deps (Arr [P (Num 1), P (Num 0)]) (P Undefined) True sample_finished
       = (None, (fst sample_finished,
                 (snd sample_finished)
                   \<lparr> exp_data := exp_data (snd sample_finished)
                        @ [(''ms.response'', P (Num 1)), (''ms.response'', P (Num 0))] \<rparr>))"
proof -
  have f: "finished (fst sample_finished)" by code_simp
  have v: "valid_response (Arr [P (Num 1), P (Num 0)])" by code_simp
  have n: "name (fst sample_finished) = ''ms''" by code_simp
  show ?thesis
    using f v n
      addResponse_when_finished [OF f v, of sample_deps "P Undefined" True "snd sample_finished"]
    by (simp add: response_values_def)
qed

text \<open>
  Claim C2, as amended. On a well-formed handler \<^verbatim>\<open>addResponse\<close> throws exactly when
  the response is neither 0 nor 1 nor an array of 0s and 1s. When it throws, the handler
  and the world are as before: nothing has been recorded. When it does not, the scalar
  values of the response are recorded whatever the finished flag and
  \<^verbatim>\<open>doGiveToQuest\<close> are, and the handler changes only if it was not finished: the
  current staircase takes the response and a trial-selection step follows.
\<close>

theorem addResponse_rejects_or_records:
  assumes "wf_handler h"
  shows "(fst (addResponse d r v g (h, w)) \<noteq> None) = (\<not> valid_response r)
     \<and> (\<not> valid_response r \<longrightarrow>
          addResponse d r v g (h, w) = (Some (response_error r), (h, w)))
     \<and> (valid_response r \<longrightarrow>
          snd (snd (addResponse d r v g (h, w)))
            = w\<lparr> exp_data := exp_data w
                    @ map (Pair (name h @ ''.response'')) (response_values r) \<rparr>
          \<and> fst (snd (addResponse d r v g (h, w)))
            = (if finished h then h
               else nextTrial d (give_response d (the (currentStaircase h)) r v g h)))"
proof (cases "valid_response r")
  case False
  then show ?thesis
    by (simp add: addResponse_def response_rejected_iff response_error_def)
next
  case True
  show ?thesis
  proof (cases "finished h")
    case f: True
    with True show ?thesis
      by (simp add: addResponse_def response_rejected_iff record_response_eq)
  next
    case f: False
    with assms obtain i where "currentStaircase h = Some i" "i < length (staircases h)"
      by (auto simp: wf_handler_iff split: option.splits)
    with True f show ?thesis
      by (simp add: addResponse_def response_rejected_iff record_response_eq Let_def)
  qed
qed

text \<open>
  The sample handler rejects [0, 1, 2] and is left as it was; it accepts 1 with
  doGiveToQuest false and records it.
\<close>

theorem addResponse_rejects_or_records_witness:
  "wf_handler (fst sample_handler) \<and> \<not> valid_response (Arr [P (Num 0), P (Num 1), P (Num 2)])
   \<and> valid_response (P (Num 1))
   \<and> addResponse sample_deps (Arr [P (Num 0), P (Num 1), P (Num 2)]) (P Undefined) True
        sample_handler
       = (Some (response_error (Arr [P (Num 0), P (Num 1), P (Num 2)])), sample_handler)
   \<and> exp_data (snd (snd (addResponse sample_deps (P (Num 1)) (P Undefined) False sample_handler)))
       = [(''ms.response'', P (Num 1))]"
proof -
  have w: "wf_handler (fst sample_handler)" by code_simp
  have i: "\<not> valid_response (Arr [P (Num 0), P (Num 1), P (Num 2)])" by code_simp
  have v: "valid_response (P (Num 1))" by code_simp
  have n: "name (fst sample_handler) = ''ms''" by code_simp
  have e: "exp_data (snd sample_handler) = []" by code_simp
  have p: "sample_handler = (fst sample_handler, snd sample_handler)" by simp
  from addResponse_rejects_or_records [OF w, of sample_deps
      "Arr [P (Num 0), P (Num 1), P (Num 2)]" "P Undefined" True "snd sample_handler"] i
  have a: "addResponse sample_deps (Arr [P (Num 0), P (Num 1), P (Num 2)]) (P Undefined) True
        sample_handler
       = (Some (response_error (Arr [P (Num 0), P (Num 1), P (Num 2)])), sample_handler)"
    by simp
  from addResponse_rejects_or_records [OF w, of sample_deps
      "P (Num 1)" "P Undefined" False "snd sample_handler"] v n e
  have b: "exp_data (snd (snd (addResponse sample_deps (P (Num 1)) (P Undefined) False sample_handler)))
       = [(''ms.response'', P (Num 1))]"
    by (simp add: response_values_def)
  from w i v a b show ?thesis by blast
qed

text \<open>
  Claim C2 as stated fails: the response 2 is rejected, and the recorded data is still
  empty after the call, so recording is not unconditional.
\<close>

theorem rejected_response_not_recorded:
  "fst (addResponse sample_deps (P (Num 2)) (P Undefined) True sample_handler) \<noteq> None
   \<and> exp_data (snd (snd (addResponse sample_deps (P (Num 2)) (P Undefined) True sample_handler)))
       = []"
  by code_simp

lemma trialList_pass_of [simp]: "trialList (pass_of d h) = trialList h"
  by (simp add: pass_of_def new_pass_def Let_def split: Method.splits prod.splits)

lemma nextTrial_no_candidate:
  "currentStaircase (nextTrial d h) = None \<Longrightarrow>
     finished (nextTrial d h) \<and> trialList (nextTrial d h) = trialList h"
  by (auto simp: nextTrial_pass_of Let_def split: option.splits list.splits if_splits)

lemma nextTrial_candidate:
  "currentStaircase (nextTrial d h) = Some i \<Longrightarrow>
     i < length (staircases h)
     \<and> finished (nextTrial d h) = finished h
     \<and> (case first_undefined (trialList h) of
           None \<Rightarrow> trialList (nextTrial d h) = trialList h
         | Some t \<Rightarrow>
             trialList (nextTrial d h)
               = (trialList h)
                   [t := Some (trial_record (name h) (varName h) (s_name (staircases h ! i))
                                 (userAttributes d (s_quest (staircases h ! i)))
                                 (getQuestValue d (s_quest (staircases h ! i))))])"
proof -
  assume a: "currentStaircase (nextTrial d h) = Some i"
  have n: "name (pass_of d h) = name h" "varName (pass_of d h) = varName h"
    "finished (pass_of d h) = finished h"
    by (simp_all add: pass_of_def new_pass_def Let_def split: Method.splits prod.splits)
  show ?thesis
  proof (cases "currentPass (pass_of d h)")
    case Nil
    with a show ?thesis by (simp add: nextTrial_pass_of)
  next
    case (Cons c rest)
    show ?thesis
    proof (cases c)
      case None
      with Cons a show ?thesis by (simp add: nextTrial_pass_of)
    next
      case (Some j)
      show ?thesis
      proof (cases "j < length (staircases h)")
        case True
        with Cons Some a have "j = i" by (simp add: nextTrial_pass_of)
        with Cons Some True n show ?thesis
          by (simp add: nextTrial_pass_of trialList_write_trial split: option.splits)
      next
        case False
        with Cons Some a show ?thesis by (simp add: nextTrial_pass_of)
      qed
    qed
  qed
qed




section \<open>Validation of the conditions\<close>

lemma validate_each_Obj:
  "validate_each st (Obj fs # cs) =
     (if good_condition st (Obj fs) then validate_each st cs
      else if lacks ''startVal'' (Obj fs)
      then Some (Thrown ''each condition should include a startVal field'')
      else if lacks ''label'' (Obj fs)
      then Some (Thrown ''each condition should include a label field'')
      else Some (Thrown ''QUEST conditions must include a startValSd field''))"
  by (simp add: good_condition_def is_object_def lacks_def)

lemma validate_each_not_Obj:
  "\<not> is_object c \<Longrightarrow> validate_each st (c # cs) \<noteq> None"
proof (cases c)
  case (P p)
  then show ?thesis by (cases p) simp_all
next
  case (Arr xs)
  then show ?thesis by simp
next
  case (Obj fs)
  assume "\<not> is_object c"
  with Obj show ?thesis by (simp add: is_object_def)
qed

lemma validate_each_None:
  "(validate_each st cs = None) = (\<forall>c\<in>set cs. good_condition st c)"
proof (induction cs)
  case Nil
  then show ?case by simp
next
  case (Cons c cs)
  show ?case
  proof (cases "is_object c")
    case True
    then obtain fs where c: "c = Obj fs" by (cases c) (simp_all add: is_object_def)
    show ?thesis unfolding c validate_each_Obj using Cons.IH by simp
  next
    case False
    then have "\<not> good_condition st c" by (simp add: good_condition_def)
    with validate_each_not_Obj[OF False, of st cs] show ?thesis by simp
  qed
qed

lemma validateConditions_body_None:
  "(validateConditions_body st conds = None) = (\<not> bad_configuration st conds)"
proof (cases conds)
  case (Arr cs)
  have "st = SIMPLE \<or> st = QUEST" by (cases st) simp_all
  then show ?thesis
    unfolding Arr validateConditions_body_def bad_configuration_def
    by (auto simp: validate_each_None good_condition_def list_ex_iff)
qed (simp_all add: validateConditions_body_def bad_configuration_def)

lemma validateConditions_None:
  "(validateConditions st conds = None) = (\<not> bad_configuration st conds)"
  using validateConditions_body_None[of st conds]
  by (cases "validateConditions_body st conds") (simp_all add: validateConditions_def)

lemma validateConditions_Some:
  "validateConditions st conds = Some e \<Longrightarrow>
     \<exists>e'. e = Wrapped ''MultiStairHandler._validateConditions''
               ''when validating the conditions'' e'"
  by (auto simp: validateConditions_def split: option.splits)

text \<open>
  Claim C8. Construction fails when the condition list (after the default for an
  undefined one) is not a list, is empty or holds an element that is not an object, when
  a condition lacks \<^verbatim>\<open>startVal\<close> or \<^verbatim>\<open>label\<close>, when the kind (after its default) is the
  simple one, or when the kind is QUEST and a condition lacks \<^verbatim>\<open>startValSd\<close>. What is
  thrown names its origin and context: the error of \<^verbatim>\<open>_validateConditions\<close>, wrapped by
  \<^verbatim>\<open>_prepareStaircases\<close>.
\<close>

theorem construction_fails_on_bad_configuration:
  assumes "st = (case o_stairType opts of None \<Rightarrow> SIMPLE | Some t \<Rightarrow> t)"
    and "conds = (if o_conditions opts = P Undefined then Arr [P Undefined]
                  else o_conditions opts)"
    and "bad_configuration st conds"
  shows "\<exists>e. constructor d opts snaps w
           = Inl (Wrapped ''MultiStairHandler._prepareStaircases''
                    ''when preparing the staircases''
                    (Wrapped ''MultiStairHandler._validateConditions''
                       ''when validating the conditions'' e))"
proof -
  have s: "stairType (initial_handler d opts snaps w) = st"
    and c: "conditions (initial_handler d opts snaps w) = conds"
    by (simp_all add: initial_handler_def Let_def assms(1,2))
  from assms(3) obtain e where e: "validateConditions st conds = Some e"
    using validateConditions_None[of st conds] by (cases "validateConditions st conds") auto
  then obtain e' where "e = Wrapped ''MultiStairHandler._validateConditions''
               ''when validating the conditions'' e'"
    by (auto dest: validateConditions_Some)
  with e s c show ?thesis
    by (simp add: constructor_def prepareStaircases_def)
qed

text \<open>
  A condition without a label: construction fails with the doubly wrapped message of the
  missing label.
\<close>

theorem construction_fails_on_bad_configuration_witness:
  "bad_configuration QUEST (Arr [sample_A, Obj [(''startVal'', Num 3)]])
   \<and> constructor sample_deps sample_no_label [] sample_world
       = Inl (Wrapped ''MultiStairHandler._prepareStaircases''
                ''when preparing the staircases''
                (Wrapped ''MultiStairHandler._validateConditions''
                   ''when validating the conditions''
                   (Thrown ''each condition should include a label field'')))"
proof -
  have b: "bad_configuration QUEST (Arr [sample_A, Obj [(''startVal'', Num 3)]])"
    by code_simp
  have s: "QUEST = (case o_stairType sample_no_label of None \<Rightarrow> SIMPLE | Some t \<Rightarrow> t)"
    by code_simp
  have c: "Arr [sample_A, Obj [(''startVal'', Num 3)]]
      = (if o_conditions sample_no_label = P Undefined then Arr [P Undefined]
         else o_conditions sample_no_label)"
    by code_simp
  have v: "projl (constructor sample_deps sample_no_label [] sample_world)
       = Wrapped ''MultiStairHandler._prepareStaircases''
                ''when preparing the staircases''
                (Wrapped ''MultiStairHandler._validateConditions''
                   ''when validating the conditions''
                   (Thrown ''each condition should include a label field''))"
    by code_simp
  from construction_fails_on_bad_configuration [OF s c b, of sample_deps "[]" sample_world]
  obtain e where "constructor sample_deps sample_no_label [] sample_world
           = Inl (Wrapped ''MultiStairHandler._prepareStaircases''
                    ''when preparing the staircases''
                    (Wrapped ''MultiStairHandler._validateConditions''
                       ''when validating the conditions'' e))" by blast
  with v b show ?thesis by simp
qed

section \<open>Termination and the snapshots\<close>

lemma mark_finished_find:
  "mark_finished t ledger sn =
     (case find (\<lambda>k. slot_undefined ledger (k + 1)) [t..<length sn - 1] of
        None \<Rightarrow> sn
      | Some k \<Rightarrow> flag_snapshot k sn)"
proof (induction t ledger sn rule: mark_finished.induct)
  case (1 t ledger sn)
  show ?case
  proof (cases "int t < int (length sn) - 1")
    case True
    then have u: "[t..<length sn - 1] = t # [t + 1..<length sn - 1]"
      by (simp add: upt_conv_Cons)
    show ?thesis
    proof (cases "slot_undefined ledger (t + 1)")
      case su: True
      with True u show ?thesis
        by (subst mark_finished.simps) (simp add: flag_snapshot_def)
    next
      case su: False
      with True have "mark_finished t ledger sn = mark_finished (t + 1) ledger sn"
        by (subst mark_finished.simps) simp
      with "1.IH"[OF True su] u su show ?thesis by simp
    qed
  next
    case False
    then have "[t..<length sn - 1] = []" by simp
    with False show ?thesis
      by (subst mark_finished.simps) simp
  qed
qed

lemma snapshots_terminate:
  "snapshots (terminate h) =
     (case backfill_index (trialList h) (snapshots h) of
        None \<Rightarrow> snapshots h
      | Some t \<Rightarrow> flag_snapshot t (snapshots h))"
  by (simp add: terminate_def mark_finished_find backfill_index_def)

lemma snapshots_pass_of [simp]: "snapshots (pass_of d h) = snapshots h"
  by (simp add: pass_of_def new_pass_def Let_def split: Method.splits prod.splits)

lemma backfill_index_first:
  "backfill_index ledger sn = Some t \<Longrightarrow>
     t + 1 < length sn \<and> slot_undefined ledger (t + 1)
     \<and> (\<forall>u<t. \<not> slot_undefined ledger (u + 1))"
  by (auto simp: backfill_index_def find_Some_iff)

lemma backfill_index_none:
  "backfill_index ledger sn = None \<Longrightarrow> \<forall>t. t + 1 < length sn \<longrightarrow> \<not> slot_undefined ledger (t + 1)"
  by (auto simp: backfill_index_def find_None_iff)

text \<open>
  Claim C9, as amended. When a trial-selection step finds no next staircase, the handler
  is marked finished and no ledger slot changes. At most one snapshot changes: if there
  is an index \<open>t\<close> below \<^verbatim>\<open>snapshots.length - 1\<close> whose successor ledger slot \<open>t + 1\<close>
  is undefined, the snapshot at the first such index gets its finished flag set and
  every other snapshot stays as it is; without such an index the snapshots stay as they
  are.
\<close>

theorem termination_flags_snapshot:
  assumes "currentStaircase (nextTrial d h) = None"
  shows "finished (nextTrial d h)
     \<and> trialList (nextTrial d h) = trialList h
     \<and> (case backfill_index (trialList h) (snapshots h) of
          None \<Rightarrow> snapshots (nextTrial d h) = snapshots h
        | Some t \<Rightarrow>
            t + 1 < length (snapshots h)
            \<and> slot_undefined (trialList h) (t + 1)
            \<and> (\<forall>u<t. \<not> slot_undefined (trialList h) (u + 1))
            \<and> snapshots (nextTrial d h)
                = (snapshots h)[t := (snapshots h ! t)\<lparr> snap_finished := True \<rparr>])"
proof -
  from assms have s: "snapshots (nextTrial d h) =
     (case backfill_index (trialList h) (snapshots h) of
        None \<Rightarrow> snapshots h
      | Some t \<Rightarrow> flag_snapshot t (snapshots h))"
    by (auto simp: nextTrial_pass_of Let_def snapshots_terminate
        split: option.splits list.splits if_splits)
  show ?thesis
    using nextTrial_no_candidate[OF assms] s
    by (auto simp: flag_snapshot_def split: option.splits dest: backfill_index_first)
qed

text \<open>
  With three snapshots over a ledger of two slots, the terminating step flags the
  snapshot at index 1 and no other.
\<close>

theorem termination_flags_snapshot_witness:
  "currentStaircase (nextTrial sample_deps
      (sample_before_last_step [blank_snapshot, blank_snapshot, blank_snapshot])) = None
   \<and> backfill_index
         (trialList (sample_before_last_step [blank_snapshot, blank_snapshot, blank_snapshot]))
         (snapshots (sample_before_last_step [blank_snapshot, blank_snapshot, blank_snapshot]))
       = Some 1
   \<and> map snap_finished (snapshots (nextTrial sample_deps
         (sample_before_last_step [blank_snapshot, blank_snapshot, blank_snapshot])))
       = [False, True, False]"
proof -
  define h where "h = sample_before_last_step [blank_snapshot, blank_snapshot, blank_snapshot]"
  have c: "currentStaircase (nextTrial sample_deps h) = None"
    unfolding h_def by code_simp
  have b: "backfill_index (trialList h) (snapshots h) = Some 1"
    unfolding h_def by code_simp
  have m: "map snap_finished (snapshots h) = [False, False, False]"
    unfolding h_def by code_simp
  from termination_flags_snapshot [OF c] b
  have "snapshots (nextTrial sample_deps h)
      = (snapshots h)[1 := (snapshots h ! 1)\<lparr> snap_finished := True \<rparr>]"
    by simp
  then have "map snap_finished (snapshots (nextTrial sample_deps h))
      = (map snap_finished (snapshots h))[1 := True]"
    using m by (simp add: map_update)
  with m c b show ?thesis
    unfolding h_def by simp
qed

text \<open>
  Claim C9 as stated fails: a handler that has no snapshot yet terminates all the same:
  the step marks it finished, and there is no snapshot that could carry the flag.
\<close>

theorem termination_without_flagged_snapshot:
  "currentStaircase (nextTrial sample_deps (sample_before_last_step [])) = None
   \<and> finished (nextTrial sample_deps (sample_before_last_step []))
   \<and> snapshots (sample_before_last_step []) = []
   \<and> snapshots (nextTrial sample_deps (sample_before_last_step [])) = []"
  by code_simp

section \<open>The duplication cardinal\<close>

lemma new_pass_frame [simp]:
  "multiMethod (new_pass d h) = multiMethod h"
  "duplicates (new_pass d h) = duplicates h"
  "name (new_pass d h) = name h"
  "varName (new_pass d h) = varName h"
  by (simp_all add: new_pass_def Let_def split: Method.splits prod.splits)

lemma pass_of_frame [simp]:
  "multiMethod (pass_of d h) = multiMethod h"
  "duplicates (pass_of d h) = duplicates h"
  "finished (pass_of d h) = finished h"
  by (simp_all add: pass_of_def)

lemma terminate_frame [simp]:
  "multiMethod (terminate h) = multiMethod h"
  "duplicates (terminate h) = duplicates h"
  "duplicatedTrialCardinal (terminate h) = duplicatedTrialCardinal h"
  "trialKey (terminate h) = trialKey h"
  by (simp_all add: terminate_def)

lemma write_trial_frame [simp]:
  "multiMethod (write_trial d s h) = multiMethod h"
  "duplicates (write_trial d s h) = duplicates h"
  "duplicatedTrialCardinal (write_trial d s h) = duplicatedTrialCardinal h"
  "trialKey (write_trial d s h) = trialKey h"
  by (simp_all add: write_trial_def Let_def split: option.splits)

lemma nextTrial_frame [simp]:
  "multiMethod (nextTrial d h) = multiMethod h"
  "duplicates (nextTrial d h) = duplicates h"
  by (simp_all add: nextTrial_pass_of Let_def split: option.splits list.splits)



lemma give_response_frame [simp]:
  "multiMethod (give_response d i r v g h) = multiMethod h"
  "duplicates (give_response d i r v g h) = duplicates h"
  "duplicatedTrialCardinal (give_response d i r v g h) = duplicatedTrialCardinal h"
  "trialKey (give_response d i r v g h) = trialKey h"
  by (simp_all add: give_response_def)








section \<open>The trial key\<close>

lemma get_field_set_field:
  "get_field k (set_field k' v fs) = (if k = k' then Some v else get_field k fs)"
  by (induction fs) (auto simp: get_field_def)

lemma field_value_set_field:
  "field_value k (set_field k' v fs) = (if k = k' then v else field_value k fs)"
  by (simp add: field_value_def get_field_set_field)

lemma quest_args_name: "field_value ''name'' (quest_args vn al n c) = condition_label c"
  by (simp add: quest_args_def Let_def field_value_set_field condition_label_def)

lemma quest_args_nTrials:
  "trial_budget (field_value ''nTrials'' (quest_args vn al n c)) = condition_budget n c"
  by (simp add: quest_args_def Let_def field_value_set_field condition_budget_def)

lemma quest_args_cardinal:
  "get_field ''_duplicatedConditionCardinal'' (quest_args vn al n c)
     = get_field ''_duplicatedConditionCardinal'' c"
  by (simp add: quest_args_def Let_def get_field_set_field)

lemma in_trialKey_quest_args: "in_trialKey (quest_args vn al n c) = first_duplicate c"
  by (auto simp: in_trialKey_def first_duplicate_def quest_args_cardinal field_value_def
      split: option.splits)

lemma Array_fill_Inr: "Array_fill n x = Inr ks \<Longrightarrow> ks = replicate (trial_budget n) x"
  by (cases n) (auto simp: Array_fill_def trial_budget_def split: if_splits)

lemma objects_Cons_Obj [simp]: "objects (Obj fs # cs) = fs # objects cs"
  by (simp add: objects_def)

lemma objects_Nil [simp]: "objects [] = []"
  by (simp add: objects_def)

lemma key_base_Cons:
  "key_base n (c # cs)
     = (replicate (condition_budget n c) (condition_label c)) @ key_base n cs"
  by (simp add: key_base_def)

lemma key_base_Nil [simp]: "key_base n [] = []"
  by (simp add: key_base_def)

lemma prepare_loop_keys:
  "prepare_loop d vn al n cs ss keys = Inr (ss', keys') \<Longrightarrow>
     keys' = keys @ key_base n (filter first_duplicate (objects cs))"
proof (induction d vn al n cs ss keys rule: prepare_loop.induct)
  case (1 d vn al n ss keys)
  then show ?case by simp
next
  case (2 d vn al n condition cs ss keys)
  define args where "args = quest_args vn al n condition"
  show ?case
  proof (cases "first_duplicate condition")
    case True
    then have i: "in_trialKey args" by (simp add: args_def in_trialKey_quest_args)
    from "2.prems" i obtain ks where
      f: "Array_fill (field_value ''nTrials'' args) (field_value ''name'' args) = Inr ks"
      by (auto simp: args_def[symmetric] Let_def split: sum.splits)
    then have ks: "ks = replicate (condition_budget n condition) (condition_label condition)"
      by (auto dest!: Array_fill_Inr simp: args_def quest_args_name quest_args_nTrials)
    from "2.prems" i f have
      "prepare_loop d vn al n cs
         (ss @ [\<lparr> s_name = field_value ''name'' args,
                  s_duplicatedConditionCardinal = get_field ''_duplicatedConditionCardinal'' args,
                  s_quest = quest_new d args \<rparr>])
         (keys @ ks) = Inr (ss', keys')"
      by (simp add: args_def[symmetric] Let_def)
    from "2.IH"[OF args_def refl _ this] i f
    have "keys' = (keys @ ks) @ key_base n (filter first_duplicate (objects cs))"
      by simp
    with True ks show ?thesis by (simp add: key_base_Cons)
  next
    case False
    then have i: "\<not> in_trialKey args" by (simp add: args_def in_trialKey_quest_args)
    from "2.prems" i have
      "prepare_loop d vn al n cs
         (ss @ [\<lparr> s_name = field_value ''name'' args,
                  s_duplicatedConditionCardinal = get_field ''_duplicatedConditionCardinal'' args,
                  s_quest = quest_new d args \<rparr>])
         keys = Inr (ss', keys')"
      by (simp add: args_def[symmetric] Let_def)
    from "2.IH"[OF args_def refl _ this] i
    have "keys' = keys @ key_base n (filter first_duplicate (objects cs))"
      by simp
    with False show ?thesis by simp
  qed
qed simp_all

lemma prepareStaircases_trialKey:
  assumes "prepareStaircases d h w = Inr (h', w')" and "conditions h = Arr cs"
  shows "trialKey h'
       = key_sequence (permutation d) (math_random w) (nTrials h) (duplicates h)
           (filter first_duplicate (objects cs))"
proof -
  from assms obtain ss keys where
    l: "prepare_loop d (varName h) (autoLog h) (nTrials h) cs [] [] = Inr (ss, keys)"
    and t: "trialKey h'
        = repeatEveryElement (fst (shuffle (permutation d) keys (math_random w))) (duplicates h)"
    by (auto simp: prepareStaircases_def split: option.splits sum.splits prod.splits)
  from prepare_loop_keys[OF l] t show ?thesis
    by (simp add: key_sequence_def)
qed

lemma length_repeatEveryElement: "length (repeatEveryElement xs n) = n * length xs"
  by (induction xs) (simp_all add: repeatEveryElement_def)

lemma nth_repeatEveryElement:
  "k < length xs \<Longrightarrow> j < n \<Longrightarrow> repeatEveryElement xs n ! (k * n + j) = xs ! k"
proof (induction xs arbitrary: k)
  case Nil
  then show ?case by simp
next
  case (Cons x xs)
  show ?case
  proof (cases k)
    case 0
    with Cons.prems show ?thesis by (simp add: repeatEveryElement_def nth_append)
  next
    case (Suc k')
    with Cons.prems have "repeatEveryElement xs n ! (k' * n + j) = xs ! k'"
      by (intro Cons.IH) simp_all
    moreover have "repeatEveryElement (x # xs) n ! (k * n + j)
        = repeatEveryElement xs n ! (k' * n + j)"
      using Suc by (simp add: repeatEveryElement_def nth_append)
    ultimately show ?thesis using Suc by simp
  qed
qed

lemma mset_shuffle:
  assumes "permutes perm"
  shows "mset (fst (shuffle perm xs g)) = mset xs"
proof -
  obtain p g' where p: "perm g (length xs) = (p, g')" by (cases "perm g (length xs)") auto
  with assms have m: "mset p = mset [0..<length xs]"
    by (auto simp: permutes_def dest: spec[where x = g] )
       (metis fst_conv)
  then have "set p = {0..<length xs}" by (metis mset_eq_setD set_upt)
  then have f: "filter (\<lambda>i. i < length xs) p = p" by (auto simp: filter_id_conv)
  have "mset (map (\<lambda>i. xs ! i) p) = image_mset (\<lambda>i. xs ! i) (mset p)" by simp
  also have "\<dots> = mset (map (\<lambda>i. xs ! i) [0..<length xs])" unfolding m by simp
  also have "\<dots> = mset xs" by (simp add: map_nth)
  finally show ?thesis using p f by (simp add: shuffle_def)
qed

lemma length_shuffle: "permutes perm \<Longrightarrow> length (fst (shuffle perm xs g)) = length xs"
  by (metis mset_shuffle size_mset)

lemma length_key_base: "length (key_base n cs) = sum_list (map (condition_budget n) cs)"
  by (induction cs) (simp_all add: key_base_Cons)

lemma mset_rotate_eq: "mset (rotate n xs) = mset xs"
proof -
  have "mset (drop k xs @ take k xs) = mset (take k xs @ drop k xs)" for k
    by (simp only: mset_append union_commute)
  then show ?thesis
    by (simp only: rotate_drop_take append_take_drop_id)
qed

lemma sample_permutes: "permutes (permutation sample_deps)"
  by (simp add: permutes_def sample_deps_def mset_rotate_eq del: mset_upt)

lemma validated_objects:
  "validate_each st cs = None \<Longrightarrow> map Obj (objects cs) = cs"
proof (induction cs)
  case Nil
  then show ?case by simp
next
  case (Cons c cs)
  from Cons.prems have "\<forall>x\<in>set (c # cs). good_condition st x"
    by (simp only: validate_each_None)
  then have g: "good_condition st c" "validate_each st cs = None"
    by (simp_all add: validate_each_None)
  then obtain fs where "c = Obj fs"
    by (cases c) (simp_all add: good_condition_def is_object_def)
  with Cons.IH g show ?case by simp
qed

lemma prepareStaircases_objects:
  assumes "prepareStaircases d h w = Inr (h', w')" and "conditions h = Arr cs"
  shows "map Obj (objects cs) = cs"
proof -
  from assms have "validateConditions (stairType h) (Arr cs) = None"
    by (auto simp: prepareStaircases_def split: option.splits)
  then have "validate_each (stairType h) cs = None"
    by (auto simp: validateConditions_def validateConditions_body_def
        split: option.splits if_splits)
  then show ?thesis by (rule validated_objects)
qed

text \<open>
  Claim C6, as amended. After \<^verbatim>\<open>_prepareStaircases\<close> every condition is an object, and
  the trial key sequence is: the label of each condition that carries no
  \<^verbatim>\<open>_duplicatedConditionCardinal\<close> or carries the cardinal 1, replicated by the
  condition's trial budget, concatenated across those conditions, shuffled once, then
  every element expanded into \<open>duplicates\<close> adjacent repeats: the repeats of the
  \<open>k\<close>-th shuffled label sit at the positions \<open>k * duplicates + j\<close>. When the shuffle
  is a permutation, the shuffled labels are the replicated ones and the length of the key
  is the duplication factor times the sum of the trial budgets of those conditions.
\<close>

theorem trialKey_construction:
  assumes "prepareStaircases d h w = Inr (h', w')" and "conditions h = Arr cs"
    and "counted = filter first_duplicate (objects cs)"
    and "shuffled = fst (shuffle (permutation d) (key_base (nTrials h) counted) (math_random w))"
  shows "map Obj (objects cs) = cs
     \<and> trialKey h' = repeatEveryElement shuffled (duplicates h)
     \<and> (\<forall>k<length shuffled. \<forall>j<duplicates h.
          trialKey h' ! (k * duplicates h + j) = shuffled ! k)
     \<and> (permutes (permutation d) \<longrightarrow>
          mset shuffled = mset (key_base (nTrials h) counted)
          \<and> length (trialKey h')
              = duplicates h * sum_list (map (condition_budget (nTrials h)) counted))"
proof -
  have t: "trialKey h' = repeatEveryElement shuffled (duplicates h)"
    using prepareStaircases_trialKey[OF assms(1,2)] assms(3,4)
    by (simp add: key_sequence_def)
  have "permutes (permutation d) \<longrightarrow>
          mset shuffled = mset (key_base (nTrials h) counted)
          \<and> length (trialKey h')
              = duplicates h * sum_list (map (condition_budget (nTrials h)) counted)"
    unfolding t assms(4)
    by (simp add: mset_shuffle length_repeatEveryElement length_shuffle length_key_base)
  with t prepareStaircases_objects[OF assms(1,2)] show ?thesis
    by (simp add: nth_repeatEveryElement)
qed

text \<open>
  Three duplicates of the label A, one trial each, and a duplication factor of three:
  the key is A, A, A.
\<close>

theorem trialKey_construction_witness:
  "prepareStaircases sample_deps
      (initial_handler sample_deps sample_triplicate [] sample_world) sample_world
     = Inr sample_triplicate_prepared
   \<and> permutes (permutation sample_deps)
   \<and> length (trialKey (fst sample_triplicate_prepared)) = 3
   \<and> trialKey (fst sample_triplicate_prepared) = [Str ''A'', Str ''A'', Str ''A'']"
proof -
  define h where "h = initial_handler sample_deps sample_triplicate [] sample_world"
  have "\<not> isl (prepareStaircases sample_deps h sample_world)"
    unfolding h_def by code_simp
  then have p: "prepareStaircases sample_deps h sample_world
      = Inr (fst sample_triplicate_prepared, snd sample_triplicate_prepared)"
    by (simp add: sample_triplicate_prepared_def h_def)
  have c: "conditions h = Arr (case o_conditions sample_triplicate of Arr cs \<Rightarrow> cs)"
    unfolding h_def by code_simp
  have n: "duplicates h * sum_list (map (condition_budget (nTrials h))
        (filter first_duplicate (objects (case o_conditions sample_triplicate of Arr cs \<Rightarrow> cs))))
      = 3"
    unfolding h_def by code_simp
  have k: "trialKey (fst sample_triplicate_prepared) = [Str ''A'', Str ''A'', Str ''A'']"
    by code_simp
  from trialKey_construction [OF p c refl refl] sample_permutes
  have "length (trialKey (fst sample_triplicate_prepared))
      = duplicates h * sum_list (map (condition_budget (nTrials h))
        (filter first_duplicate (objects (case o_conditions sample_triplicate of Arr cs \<Rightarrow> cs))))"
    by blast
  with n have "length (trialKey (fst sample_triplicate_prepared)) = 3"
    by simp
  with p k sample_permutes show ?thesis
    by (simp add: h_def)
qed

text \<open>
  Claim C6 as stated fails: of three conditions that are the duplicates 1, 2, 3 of one
  label, one trial each, with a duplication factor of three, the key holds three labels;
  the description taken over every condition gives nine, and so does the stated length.
\<close>

theorem trialKey_leaves_out_later_duplicates:
  "length (trialKey (fst sample_triplicate_prepared)) = 3
   \<and> length (key_sequence (permutation sample_deps) (math_random sample_world) 1 3
        (objects (case o_conditions sample_triplicate of Arr cs \<Rightarrow> cs))) = 9
   \<and> 3 * sum_list (map (condition_budget 1)
        (objects (case o_conditions sample_triplicate of Arr cs \<Rightarrow> cs))) = 9"
  by code_simp

section \<open>Reproducibility from the seed\<close>

text \<open>
  Claim C1 fails on the code. Two handlers are constructed from the same seed, the same
  conditions, the fully randomized method and the same duplication factor, in two worlds
  that differ only in the state of \<^verbatim>\<open>Math.random\<close>: the trial key is shuffled without
  the seeded generator, so the first handler selects the staircase A and writes its value
  5 into slot 0, the second selects B and writes 3.
\<close>

theorem seeded_full_random_order_differs:
  "o_randomSeed sample_full_random = Num 7
   \<and> current_label (fst (projr (constructor sample_deps sample_full_random [] sample_world)))
       = Some (Str ''A'')
   \<and> current_label (fst (projr (constructor sample_deps sample_full_random []
         (sample_world \<lparr> math_random := 2 \<rparr>))))
       = Some (Str ''B'')
   \<and> trialList (fst (projr (constructor sample_deps sample_full_random [] sample_world))) ! 0
       = Some [(''ms.v'', P (Num 5)), (''ms.intensity'', P (Num 5)),
               (''ms.label'', P (Str ''A'')), (''ms.startVal'', P (Num 5))]
   \<and> trialList (fst (projr (constructor sample_deps sample_full_random []
         (sample_world \<lparr> math_random := 2 \<rparr>)))) ! 0
       = Some [(''ms.v'', P (Num 3)), (''ms.intensity'', P (Num 3)),
               (''ms.label'', P (Str ''B'')), (''ms.startVal'', P (Num 3))]"
  by code_simp

section \<open>When the handler is finished\<close>

















lemma trials_left_nextTrial [simp]: "trials_left left (nextTrial d h) = trials_left left h"
  by (simp add: trials_left_def)







lemma staircase_of_name [simp]: "s_name (staircase_of d vn al n c) = condition_label c"
  by (simp add: staircase_of_def quest_args_name)





lemma give_response_names [simp]:
  "map s_name (staircases (give_response d i r v g h)) = map s_name (staircases h)"
proof (cases "i < length (staircases h)")
  case True
  then show ?thesis
    by (simp add: give_response_def map_update list_update_same_conv)
next
  case False
  then have "(staircases h)[i := x] = staircases h" for x
    by (simp add: list_update_beyond)
  then show ?thesis by (simp add: give_response_def)
qed



















section \<open>The duplication cardinal through a session\<close>







lemma select_handler_None:
  assumes "select_handler ss label (Some c) = None"
  shows "\<not> is_duplicate ss label c i"
  using assms
  by (auto simp: select_handler_def is_duplicate_def find_None_iff list_all_iff
      split: if_splits)

lemma give_response_tags [simp]:
  "map s_duplicatedConditionCardinal (staircases (give_response d i r v g h))
     = map s_duplicatedConditionCardinal (staircases h)"
proof (cases "i < length (staircases h)")
  case True
  then show ?thesis
    by (simp add: give_response_def map_update list_update_same_conv)
next
  case False
  then have "(staircases h)[i := x] = staircases h" for x
    by (simp add: list_update_beyond)
  then show ?thesis by (simp add: give_response_def)
qed

lemma select_handler_cong:
  assumes n: "map s_name ss' = map s_name ss"
    and t: "map s_duplicatedConditionCardinal ss' = map s_duplicatedConditionCardinal ss"
  shows "select_handler ss' key c = select_handler ss key c"
proof -
  from n have l: "length ss' = length ss" by (rule map_eq_imp_length_eq)
  have nm: "s_name (ss' ! i) = s_name (ss ! i)" if "i < length ss" for i
    using arg_cong[OF n, of "\<lambda>xs. xs ! i"] that l by simp
  have tg: "s_duplicatedConditionCardinal (ss' ! i) = s_duplicatedConditionCardinal (ss ! i)"
    if "i < length ss" for i
    using arg_cong[OF t, of "\<lambda>xs. xs ! i"] that l by simp
  have "list_all (\<lambda>s. s_duplicatedConditionCardinal s \<noteq> None) ss'
      = list_all (\<lambda>x. x \<noteq> None) (map s_duplicatedConditionCardinal ss')"
    by (simp add: list_all_iff)
  also have "\<dots> = list_all (\<lambda>s. s_duplicatedConditionCardinal s \<noteq> None) ss"
    unfolding t by (simp add: list_all_iff)
  finally have a: "list_all (\<lambda>s. s_duplicatedConditionCardinal s \<noteq> None) ss'
      = list_all (\<lambda>s. s_duplicatedConditionCardinal s \<noteq> None) ss" .
  show ?thesis
    unfolding select_handler_def a l
    by (intro if_cong find_cong refl) (simp_all add: nm tg split: option.splits)
qed

lemma select_handler_give_response [simp]:
  "select_handler (staircases (give_response d i r v g h)) key c
     = select_handler (staircases h) key c"
  by (rule select_handler_cong) simp_all











section \<open>The ledger through a session\<close>

text \<open>
  Claim C3, as amended. The slots of the trial ledger are populated in index order and
  written once. At every point of a session (the handler as constructed, then any sequence of
  \<^verbatim>\<open>addResponse\<close> calls) the populated slots form an initial segment of the ledger; at
  every later point of the session each slot populated before still holds the same
  record, and the ledger has the same length. A trial-selection step that selects a
  staircase fills exactly the first undefined slot of the ledger (none when the ledger
  is full); a step that selects none leaves the ledger as it is.
\<close>

theorem ledger_in_order_write_once:
  assumes "constructor d opts snaps w = Inr hw"
    and "a = trialList (fst (snd (run d rs hw)))"
    and "b = trialList (fst (snd (run d rs' (snd (run d rs hw)))))"
  shows "length b = length a
     \<and> (\<forall>t<length a. a ! t \<noteq> None \<longrightarrow> (\<forall>u<t. a ! u \<noteq> None))
     \<and> (\<forall>t<length a. a ! t \<noteq> None \<longrightarrow> b ! t = a ! t)
     \<and> (currentStaircase (nextTrial d h) = None \<longrightarrow>
          trialList (nextTrial d h) = trialList h)
     \<and> (currentStaircase (nextTrial d h) \<noteq> None \<longrightarrow>
          (case first_undefined (trialList h) of
             None \<Rightarrow> trialList (nextTrial d h) = trialList h
           | Some t \<Rightarrow> \<exists>e. trialList (nextTrial d h) = (trialList h)[t := Some e]))"
proof -
  obtain h0 w0 where hw: "hw = (h0, w0)" by (cases hw) auto
  with assms(1) have "in_order (trialList (fst hw))"
    by (auto dest: constructor_in_order)
  then have "in_order a"
    unfolding assms(2) by (rule run_in_order)
  moreover have "keeps a b"
    unfolding assms(2,3) by (rule run_keeps)
  moreover have "currentStaircase (nextTrial d h) = None \<longrightarrow>
          trialList (nextTrial d h) = trialList h"
    using nextTrial_no_candidate[of d h] by simp
  moreover have "currentStaircase (nextTrial d h) \<noteq> None \<longrightarrow>
          (case first_undefined (trialList h) of
             None \<Rightarrow> trialList (nextTrial d h) = trialList h
           | Some t \<Rightarrow> \<exists>e. trialList (nextTrial d h) = (trialList h)[t := Some e])"
  proof
    assume "currentStaircase (nextTrial d h) \<noteq> None"
    then obtain i where "currentStaircase (nextTrial d h) = Some i" by auto
    from nextTrial_candidate[OF this] show "case first_undefined (trialList h) of
             None \<Rightarrow> trialList (nextTrial d h) = trialList h
           | Some t \<Rightarrow> \<exists>e. trialList (nextTrial d h) = (trialList h)[t := Some e]"
      by (auto split: option.splits)
  qed
  ultimately show ?thesis
    by (simp add: in_order_iff keeps_iff)
qed

text \<open>
  The sample session: after one response both slots of the ledger are populated, and
  after a second response slot 1 still holds its record.
\<close>

theorem ledger_in_order_write_once_witness:
  "constructor sample_deps sample_options [] sample_world = Inr (projr (constructor sample_deps sample_options [] sample_world))
   \<and> trialList (fst (snd (run sample_deps [(P (Num 1), P Undefined, True)]
        (projr (constructor sample_deps sample_options [] sample_world))))) ! 1 \<noteq> None
   \<and> trialList (fst (snd (run sample_deps [(P (Num 1), P Undefined, True)]
        (projr (constructor sample_deps sample_options [] sample_world))))) ! 0 \<noteq> None
   \<and> trialList (fst (snd (run sample_deps [(P (Num 0), P Undefined, True)]
        (snd (run sample_deps [(P (Num 1), P Undefined, True)]
           (projr (constructor sample_deps sample_options [] sample_world))))))) ! 1
     = trialList (fst (snd (run sample_deps [(P (Num 1), P Undefined, True)]
        (projr (constructor sample_deps sample_options [] sample_world))))) ! 1"
proof -
  define a where "a = trialList (fst (snd (run sample_deps [(P (Num 1), P Undefined, True)]
        (projr (constructor sample_deps sample_options [] sample_world)))))"
  define b where "b = trialList (fst (snd (run sample_deps [(P (Num 0), P Undefined, True)]
        (snd (run sample_deps [(P (Num 1), P Undefined, True)]
           (projr (constructor sample_deps sample_options [] sample_world)))))))"
  have "\<not> isl (constructor sample_deps sample_options [] sample_world)"
    by code_simp
  then have c: "constructor sample_deps sample_options [] sample_world = Inr (projr (constructor sample_deps sample_options [] sample_world))"
    by simp
  have l: "length a = 2"
    unfolding a_def by code_simp
  have p: "a ! 1 \<noteq> None"
    unfolding a_def by code_simp
  note t = ledger_in_order_write_once [OF c a_def b_def]
  have t1: "\<forall>t<length a. a ! t \<noteq> None \<longrightarrow> (\<forall>u<t. a ! u \<noteq> None)"
    using t by blast
  have t2: "\<forall>t<length a. a ! t \<noteq> None \<longrightarrow> b ! t = a ! t"
    using t by blast
  from t1[rule_format, of 1 0] l p have "a ! 0 \<noteq> None" by simp
  moreover from t2[rule_format, of 1] l p have "b ! 1 = a ! 1" by simp
  ultimately show ?thesis
    using c p unfolding a_def b_def by blast
qed

text \<open>
  Claim C3 as stated fails: not every trial-selection step writes into the ledger. In the
  sample session the ledger has two slots and both are populated after the first
  response; the step after the second response selects the staircase at position 0 and
  leaves the ledger as it is.
\<close>

theorem selection_step_with_full_ledger:
  "first_undefined (trialList (fst (snd (run sample_deps [(P (Num 1), P Undefined, True)]
       sample_handler)))) = None
   \<and> currentStaircase (fst (snd (run sample_deps
         [(P (Num 1), P Undefined, True), (P (Num 1), P Undefined, True)] sample_handler)))
       = Some 0
   \<and> \<not> finished (fst (snd (run sample_deps
         [(P (Num 1), P Undefined, True), (P (Num 1), P Undefined, True)] sample_handler)))
   \<and> trialList (fst (snd (run sample_deps
         [(P (Num 1), P Undefined, True), (P (Num 1), P Undefined, True)] sample_handler)))
       = trialList (fst (snd (run sample_deps [(P (Num 1), P Undefined, True)]
           sample_handler)))"
  by code_simp

end
